theory Spec2Isabelle
  imports Main "HOL-Library.Sublist" "HOL-Library.AList"
begin

section \<open>Python strings\<close>

text \<open>
  A Python \<open>str\<close> is modelled as a \<open>string\<close>; a \<open>char\<close> stands for a code point below 256.
  \<open>isspace\<close> lists the code points below 256 that \<open>str.strip()\<close> removes.
\<close>

definition isspace :: "char \<Rightarrow> bool" where
  "isspace c = ((of_char c :: nat) \<in> set [9, 10, 11, 12, 13, 28, 29, 30, 31, 32, 133, 160])"

definition lstrip_ws :: "string \<Rightarrow> string" where
  "lstrip_ws s = dropWhile isspace s"

definition strip :: "string \<Rightarrow> string" where
  "strip s = rev (dropWhile isspace (rev (dropWhile isspace s)))"

text \<open>\<open>sep.join(items)\<close>\<close>

fun join :: "string \<Rightarrow> string list \<Rightarrow> string" where
  "join sep [] = []"
| "join sep [x] = x"
| "join sep (x # y # ys) = x @ sep @ join sep (y # ys)"

text \<open>\<open>s.lstrip(c)\<close> for a one-character \<open>c\<close>, \<open>s.replace(a, b)\<close> for characters, \<open>s.endswith(suf)\<close>
  and \<open>s.split(c)\<close>.\<close>

definition lstrip_char :: "char \<Rightarrow> string \<Rightarrow> string" where
  "lstrip_char c s = dropWhile (\<lambda>x. x = c) s"

definition replace_char :: "char \<Rightarrow> char \<Rightarrow> string \<Rightarrow> string" where
  "replace_char a b s = map (\<lambda>x. if x = a then b else x) s"

definition endswith :: "string \<Rightarrow> string \<Rightarrow> bool" where
  "endswith s suf = suffix suf s"

fun split_on :: "char \<Rightarrow> string \<Rightarrow> string list" where
  "split_on c [] = [[]]"
| "split_on c (x # xs) =
     (if x = c then [] # split_on c xs
      else (case split_on c xs of [] \<Rightarrow> [[x]] | w # ws \<Rightarrow> (x # w) # ws))"

section \<open>Paths and \<open>_safe_nb_path\<close> (backend/notebooks.py, v2main.py)\<close>

text \<open>
  An absolute POSIX path is the list of its names below the root \<open>/\<close>. \<open>parts\<close> is how
  pathlib reads a string (empty names and \<open>.\<close> dropped, \<open>..\<close> kept), \<open>joinpath\<close> is the
  operator \<open>/\<close> of a path and a string (an absolute right operand replaces the left one),
  \<open>resolve\<close> is \<open>Path.resolve()\<close> on a file system without symbolic links (\<open>..\<close> removes
  the last name, and nothing at the root); it looks every name up and raises \<open>ValueError\<close>
  (embedded null byte) when a name holds the character 0. \<open>parents\<close> is \<open>Path.parents\<close>,
  \<open>relative_to\<close> is \<open>str(p.relative_to(base))\<close> for a \<open>p\<close> at or below \<open>base\<close>, and
  \<open>path_str\<close> is \<open>str(p)\<close>.
\<close>

type_synonym path = "string list"

text \<open>
  The exceptions of the model, and the \<open>HTTPException\<close>s of the two files with their status
  and detail; \<open>Unhandled\<close> is an exception that no handler of the route catches.
\<close>

datatype exn =
    KernelStartupFailure | CellTimeoutError | DeadKernelError | OSError | IndexError | ValueError

datatype detail =
    Invalid_notebook_path
  | Failed_to_read_notebook
  | Failed_to_write_notebook
  | Failed_to_save_notebook
  | Invalid_cell_index_of int nat
  | Invalid_cell_index
  | Cell_execution_failed
  | Cell_execution_failed_by exn
  | Notebook_execution_failed_by exn

datatype error = HTTPException nat detail | Unhandled exn

definition parts :: "string \<Rightarrow> string list" where
  "parts s = filter (\<lambda>n. n \<noteq> [] \<and> n \<noteq> ''.'') (split_on CHR ''/'' s)"

definition is_absolute :: "string \<Rightarrow> bool" where
  "is_absolute s = (case s of [] \<Rightarrow> False | x # _ \<Rightarrow> x = CHR ''/'')"

definition joinpath :: "path \<Rightarrow> string \<Rightarrow> string list" where
  "joinpath base s = (if is_absolute s then parts s else base @ parts s)"

fun resolve_names :: "path \<Rightarrow> string list \<Rightarrow> path" where
  "resolve_names st [] = st"
| "resolve_names st (n # ns) =
     (if n = ''..'' then resolve_names (butlast st) ns else resolve_names (st @ [n]) ns)"

definition resolve :: "string list \<Rightarrow> exn + path" where
  "resolve ns =
     (if CHR 0x00 \<in> set (concat ns) then Inl ValueError else Inr (resolve_names [] ns))"

definition parents :: "path \<Rightarrow> path list" where
  "parents p = map (\<lambda>k. take k p) (rev [0..<length p])"

definition relative_to :: "path \<Rightarrow> path \<Rightarrow> string" where
  "relative_to p base = (if p = base then ''.'' else join ''/'' (drop (length base) p))"

definition path_str :: "path \<Rightarrow> string" where
  "path_str p = (if p = [] then ''/'' else concat (map (\<lambda>n. CHR ''/'' # n) p))"

text \<open>The first two statements of \<open>_safe_nb_path\<close>: the string that is joined to the root.\<close>

definition normalise :: "string \<Rightarrow> string" where
  "normalise rel_path =
     (let rel_path = replace_char (CHR 0x5C) CHR ''/'' (lstrip_char CHR ''/'' (strip rel_path))
      in if \<not> endswith rel_path ''.ipynb'' then rel_path @ ''.ipynb'' else rel_path)"

text \<open>
  \<open>_safe_nb_path\<close>. No route catches the exception of \<open>resolve()\<close>.
\<close>

definition safe_nb_path :: "path \<Rightarrow> string \<Rightarrow> error + path" where
  "safe_nb_path NOTEBOOK_DIR rel_path =
     (case resolve (joinpath NOTEBOOK_DIR (normalise rel_path)) of
        Inl e \<Rightarrow> Inl (Unhandled e)
      | Inr p \<Rightarrow>
          if NOTEBOOK_DIR \<notin> set (parents p) \<and> p \<noteq> NOTEBOOK_DIR
          then Inl (HTTPException 400 Invalid_notebook_path)
          else Inr p)"

section \<open>Output records and \<open>_outputs_to_text\<close> (backend/notebooks.py)\<close>

text \<open>
  An element of a cell's \<open>outputs\<close> is a dict. The model keeps the keys that the code reads,
  each optional (\<open>None\<close>: the key is absent) and typed as the notebook format types it:
  a text is a \<open>str\<close> or a list of \<open>str\<close> (what \<open>isinstance(txt, list)\<close> tells apart).
\<close>

datatype multiline = Str string | StrList "string list"

record nb_output =
  output_type :: "string option"
  o_name :: "string option"
  o_text :: "multiline option"
  ename :: "string option"
  evalue :: "string option"
  traceback :: "string list option"
  o_data :: "(string \<times> multiline) list option"

text \<open>\<open>"".join(txt)\<close> if \<open>txt\<close> is a list, \<open>txt\<close> itself otherwise.\<close>

fun flat_text :: "multiline \<Rightarrow> string" where
  "flat_text (StrList xs) = concat xs"
| "flat_text (Str s) = s"

text \<open>The body of the loop of \<open>_outputs_to_text\<close>: what one output appends to \<open>lines\<close>.\<close>

definition output_lines :: "nb_output \<Rightarrow> string list" where
  "output_lines out =
    (if output_type out = Some ''stream'' then
       [flat_text (case o_text out of None \<Rightarrow> Str [] | Some t \<Rightarrow> t)]
     else if output_type out = Some ''error'' then
       (let en = (case ename out of None \<Rightarrow> [] | Some s \<Rightarrow> s);
            ev = (case evalue out of None \<Rightarrow> [] | Some s \<Rightarrow> s);
            tb = (case traceback out of None \<Rightarrow> [] | Some t \<Rightarrow> t)
        in (en @ '': '' @ ev) # (if tb \<noteq> [] then tb else []))
     else
       (case o_data out of
          None \<Rightarrow> []
        | Some d \<Rightarrow>
           (case map_of d ''text/plain'' of
              None \<Rightarrow> []
            | Some tp \<Rightarrow> [flat_text tp])))"

fun outputs_loop :: "string list \<Rightarrow> nb_output list \<Rightarrow> string list" where
  "outputs_loop lines [] = lines"
| "outputs_loop lines (out # outs) = outputs_loop (lines @ output_lines out) outs"

definition outputs_to_text :: "nb_output list \<Rightarrow> string" where
  "outputs_to_text outs = strip (join ''\<newline>'' (outputs_loop [] outs))"

subsection \<open>The output records of the specification\<close>

text \<open>
  The specification's tagged variant \<open>Stream{channel, text} | Error{name, message, trace} |
  Display{mimeToValue}\<close>, its encoding as the dicts the code reads, and the items that the
  specification's words make each record emit.
\<close>

datatype output_record =
    Stream string string
  | Error string string "string list"
  | Display "(string \<times> string) list"

fun encode :: "output_record \<Rightarrow> nb_output" where
  "encode (Stream channel body) =
     \<lparr>output_type = Some ''stream'', o_name = Some channel, o_text = Some (Str body),
      ename = None, evalue = None, traceback = None, o_data = None\<rparr>"
| "encode (Error nm msg trace) =
     \<lparr>output_type = Some ''error'', o_name = None, o_text = None,
      ename = Some nm, evalue = Some msg, traceback = Some trace, o_data = None\<rparr>"
| "encode (Display mimes) =
     \<lparr>output_type = Some ''display_data'', o_name = None, o_text = None,
      ename = None, evalue = None, traceback = None,
      o_data = Some (map (\<lambda>(k, v). (k, Str v)) mimes)\<rparr>"

fun emitted :: "output_record \<Rightarrow> string list" where
  "emitted (Stream channel body) = [body]"
| "emitted (Error nm msg trace) = (nm @ '': '' @ msg) # trace"
| "emitted (Display mimes) =
     (case map_of mimes ''text/plain'' of None \<Rightarrow> [] | Some v \<Rightarrow> [v])"

section \<open>Documents, notebook objects and the file system\<close>

text \<open>
  A cell is a dict: \<open>cell_type\<close> and \<open>source\<close> are always there, \<open>outputs\<close> and
  \<open>execution_count\<close> may be absent (a markdown cell has neither), and \<open>execution_count\<close>
  may be there with the value \<open>None\<close>. \<open>cell_other\<close> holds the keys that no code of the
  repository reads. A document is what a notebook file holds.
\<close>

datatype cell_kind = Code | Markdown | Raw

datatype 'a field = Absent | Present 'a

record cell =
  cell_type :: cell_kind
  source :: string
  outputs :: "nb_output list field"
  execution_count :: "int option field"
  cell_other :: "(string \<times> string) list"

type_synonym metadata = "(string \<times> string) list"

record document =
  doc_metadata :: metadata
  doc_cells :: "cell list"

text \<open>\<open>cell.get("outputs", [])\<close> and \<open>cell.get("execution_count")\<close>.\<close>

definition get_outputs :: "cell \<Rightarrow> nb_output list" where
  "get_outputs c = (case outputs c of Absent \<Rightarrow> [] | Present outs \<Rightarrow> outs)"

definition get_execution_count :: "cell \<Rightarrow> int option" where
  "get_execution_count c = (case execution_count c of Absent \<Rightarrow> None | Present n \<Rightarrow> n)"

definition new_markdown_cell :: "string \<Rightarrow> cell" where
  "new_markdown_cell src =
     \<lparr>cell_type = Markdown, source = src, outputs = Absent, execution_count = Absent,
      cell_other = [(''metadata'', ''{}'')]\<rparr>"

text \<open>
  In memory a notebook is a \<open>NotebookNode\<close> that refers to its metadata object and to a
  list of cell objects; the objects live in a store and are changed in place. \<open>load\<close> is
  what parsing a document builds (fresh objects, cell \<open>i\<close> at address \<open>i\<close>), \<open>dump\<close> is
  what serialising a notebook reads.
\<close>

record heap =
  cell_at :: "nat \<Rightarrow> cell"
  meta_at :: "nat \<Rightarrow> metadata"

record notebook =
  nb_metadata :: nat
  nb_cells :: "nat list"

definition load :: "document \<Rightarrow> notebook \<times> heap" where
  "load d =
     (\<lparr>nb_metadata = 0, nb_cells = [0..<length (doc_cells d)]\<rparr>,
      \<lparr>cell_at = (\<lambda>r. if r < length (doc_cells d) then doc_cells d ! r else new_markdown_cell []),
       meta_at = (\<lambda>r. doc_metadata d)\<rparr>)"

definition dump :: "heap \<Rightarrow> notebook \<Rightarrow> document" where
  "dump h nb =
     \<lparr>doc_metadata = meta_at h (nb_metadata nb), doc_cells = map (cell_at h) (nb_cells nb)\<rparr>"

text \<open>
  The file system maps a resolved path to the file stored there, a notebook document or
  content that does not parse; \<open>writable\<close> tells where a write succeeds.
\<close>

datatype stored_file = Notebook document | Garbage

record filesystem =
  files :: "path \<Rightarrow> stored_file option"
  writable :: "path \<Rightarrow> bool"

definition store :: "filesystem \<Rightarrow> path \<Rightarrow> document \<Rightarrow> filesystem" where
  "store fs p d = fs\<lparr>files := (files fs)(p := Some (Notebook d))\<rparr>"

section \<open>The execution session and \<open>NotebookClient.execute\<close>\<close>

text \<open>
  The execution session provider is a parameter: \<open>start_kernel\<close> is a fresh session (its
  state and the language information it reports) or the failure to start one;
  \<open>run_code k src\<close> is what the session in state \<open>k\<close> does with the source of a cell when
  it is left to run: the outputs it sends, each with the second at which it arrives, the
  seconds the cell takes and the next state; or a failure of the session (a dead kernel)
  with the outputs that had arrived.
\<close>

datatype 'k reply = Reply "(nat \<times> nb_output) list" nat 'k | Fails exn "nb_output list"

record 'k provider =
  start_kernel :: "exn + 'k \<times> string"
  run_code :: "'k \<Rightarrow> string \<Rightarrow> 'k reply"

text \<open>
  Modelled from the spec: \<open>NotebookClient\<close> (package nbclient) is not in src/. Its
  \<open>execute()\<close> follows sections 4.3 and 6 of the specification: one fresh session, the cells
  in document order, a cell that is not code (or whose source is blank) passed through,
  the outputs of an executed cell replaced wholesale and the next number of the session
  given to it, a cell whose outputs hold an error not stopping the run
  (\<open>allow_errors=True\<close>). It works on the notebook object it was given, in place, and
  returns that object; this is what the comment of \<open>_execute\<close> (return the notebook with
  error outputs even if execution fails) relies on. A fault of the session is raised to the
  caller.
\<close>

definition executes :: "cell \<Rightarrow> bool" where
  "executes c = (cell_type c = Code \<and> strip (source c) \<noteq> [])"

text \<open>
  Modelled from the spec: the wait of the client for the reply to one cell (nbclient, not
  in src/), the step of section 4.3 that collects the outputs of a cell. For the option
  \<open>timeout\<close> that \<open>_execute\<close> passes, the model follows the documentation of the package
  and not the words of the specification: it is the time to wait for the execution of one
  cell, and zero or a negative number is no limit; a cell that takes longer raises
  \<open>CellTimeoutError\<close> and holds the outputs that arrived in time. The specification reads
  the same number as a budget of the whole call; C2 is about the difference.
\<close>

datatype 'k outcome = Done "nb_output list" 'k | Struck exn "nb_output list"

definition await_reply :: "'k provider \<Rightarrow> 'k \<Rightarrow> int \<Rightarrow> string \<Rightarrow> 'k outcome" where
  "await_reply P k timeout src =
     (case run_code P k src of
        Reply msgs secs k' \<Rightarrow>
          if 0 < timeout \<and> timeout < int secs
          then Struck CellTimeoutError (map snd (filter (\<lambda>m. int (fst m) \<le> timeout) msgs))
          else Done (map snd msgs) k'
      | Fails e outs \<Rightarrow> Struck e outs)"

text \<open>
  Modelled from the spec: the loop of \<open>NotebookClient.execute\<close> (nbclient, not in src/) over
  the cell objects of the notebook, with the number \<open>n\<close> of code cells executed so far and
  the state \<open>k\<close> of the session. A fault ends the loop; the cell it struck holds the
  outputs that had arrived and the number it was started with, and the cells after it are
  not touched.
\<close>

fun execute_cells ::
  "'k provider \<Rightarrow> int \<Rightarrow> nat \<Rightarrow> 'k \<Rightarrow> nat list \<Rightarrow> heap \<Rightarrow> exn option \<times> heap" where
  "execute_cells P timeout n k [] h = (None, h)"
| "execute_cells P timeout n k (r # rs) h =
     (let c = cell_at h r in
      if \<not> executes c then execute_cells P timeout n k rs h
      else
        (case await_reply P k timeout (source c) of
           Done outs k' \<Rightarrow>
             execute_cells P timeout (n + 1) k' rs
               (h\<lparr>cell_at := (cell_at h)(r := c\<lparr>outputs := Present outs,
                                                execution_count := Present (Some (int n + 1))\<rparr>)\<rparr>)
         | Struck e outs \<Rightarrow>
             (Some e,
              h\<lparr>cell_at := (cell_at h)(r := c\<lparr>outputs := Present outs,
                                               execution_count := Present (Some (int n + 1))\<rparr>)\<rparr>)))"

text \<open>
  Modelled from the spec: \<open>NotebookClient(nb, ...).execute()\<close> (nbclient, not in src/). A
  session that does not start raises before the notebook is touched; a started session
  records its language information in the metadata of the notebook, runs the cells, and
  either raises the fault of the session or returns the notebook object it was given.
\<close>

definition client_execute ::
  "'k provider \<Rightarrow> int \<Rightarrow> notebook \<Rightarrow> heap \<Rightarrow> (exn + notebook) \<times> heap" where
  "client_execute P timeout nb h =
     (case start_kernel P of
        Inl e \<Rightarrow> (Inl e, h)
      | Inr (k, info) \<Rightarrow>
          (let m = nb_metadata nb;
               h1 = h\<lparr>meta_at := (meta_at h)(m := AList.update ''language_info'' info (meta_at h m))\<rparr>
           in case execute_cells P timeout 0 k (nb_cells nb) h1 of
                (Some e, h2) \<Rightarrow> (Inl e, h2)
              | (None, h2) \<Rightarrow> (Inr nb, h2)))"

text \<open>
  What the session makes of a list of cells, without the store: the cells after the run
  and the fault that ended it, if one did.
\<close>

fun run_cells ::
  "'k provider \<Rightarrow> int \<Rightarrow> nat \<Rightarrow> 'k \<Rightarrow> cell list \<Rightarrow> exn option \<times> cell list" where
  "run_cells P timeout n k [] = (None, [])"
| "run_cells P timeout n k (c # cs) =
     (if \<not> executes c then
        (case run_cells P timeout n k cs of (e, cs') \<Rightarrow> (e, c # cs'))
      else
        (case await_reply P k timeout (source c) of
           Done outs k' \<Rightarrow>
             (case run_cells P timeout (n + 1) k' cs of
                (e, cs') \<Rightarrow>
                  (e, c\<lparr>outputs := Present outs, execution_count := Present (Some (int n + 1))\<rparr> # cs'))
         | Struck e outs \<Rightarrow>
             (Some e,
              c\<lparr>outputs := Present outs, execution_count := Present (Some (int n + 1))\<rparr> # cs)))"


definition session_cells :: "'k provider \<Rightarrow> int \<Rightarrow> cell list \<Rightarrow> cell list" where
  "session_cells P timeout cs =
     (case start_kernel P of Inl e \<Rightarrow> cs | Inr (k, info) \<Rightarrow> snd (run_cells P timeout 0 k cs))"

definition session_fault :: "'k provider \<Rightarrow> int \<Rightarrow> cell list \<Rightarrow> exn option" where
  "session_fault P timeout cs =
     (case start_kernel P of Inl e \<Rightarrow> Some e | Inr (k, info) \<Rightarrow> fst (run_cells P timeout 0 k cs))"

definition session_metadata :: "'k provider \<Rightarrow> metadata \<Rightarrow> metadata" where
  "session_metadata P md =
     (case start_kernel P of Inl e \<Rightarrow> md | Inr (k, info) \<Rightarrow> AList.update ''language_info'' info md)"

section \<open>The notebook routes of backend/notebooks.py\<close>

definition default_document :: document where
  "default_document = \<lparr>doc_metadata = [], doc_cells = [new_markdown_cell ''# New notebook'']\<rparr>"

definition read_nb :: "filesystem \<Rightarrow> path \<Rightarrow> (error + notebook \<times> heap) \<times> filesystem" where
  "read_nb fs path =
     (case files fs path of
        None \<Rightarrow>
          (if writable fs path then (Inr (load default_document), store fs path default_document)
           else (Inl (Unhandled OSError), fs))
      | Some Garbage \<Rightarrow> (Inl (HTTPException 500 Failed_to_read_notebook), fs)
      | Some (Notebook d) \<Rightarrow> (Inr (load d), fs))"

definition write_nb :: "filesystem \<Rightarrow> path \<Rightarrow> notebook \<Rightarrow> heap \<Rightarrow> error + filesystem" where
  "write_nb fs path nb h =
     (if writable fs path then Inr (store fs path (dump h nb))
      else Inl (HTTPException 500 Failed_to_write_notebook))"

definition execute :: "'k provider \<Rightarrow> notebook \<Rightarrow> int \<Rightarrow> heap \<Rightarrow> notebook \<times> heap" where
  "execute P nb timeout h =
     (case client_execute P timeout nb h of
        (Inr executed, h') \<Rightarrow> (executed, h')
      | (Inl e, h') \<Rightarrow> (nb, h'))"

definition get_notebook ::
  "path \<Rightarrow> filesystem \<Rightarrow> string \<Rightarrow> (error + string \<times> document) \<times> filesystem" where
  "get_notebook NOTEBOOK_DIR fs path =
     (case safe_nb_path NOTEBOOK_DIR path of
        Inl e \<Rightarrow> (Inl e, fs)
      | Inr p \<Rightarrow>
          (case read_nb fs p of
             (Inl e, fs1) \<Rightarrow> (Inl e, fs1)
           | (Inr (nb, h), fs1) \<Rightarrow> (Inr (path, dump h nb), fs1)))"

definition save_notebook ::
  "path \<Rightarrow> filesystem \<Rightarrow> string \<Rightarrow> document \<Rightarrow> (error + string) \<times> filesystem" where
  "save_notebook NOTEBOOK_DIR fs path req_notebook =
     (case safe_nb_path NOTEBOOK_DIR path of
        Inl e \<Rightarrow> (Inl e, fs)
      | Inr p \<Rightarrow>
          (case load req_notebook of
             (nb, h) \<Rightarrow>
               (case write_nb fs p nb h of
                  Inl e \<Rightarrow> (Inl (HTTPException 500 Failed_to_save_notebook), fs)
                | Inr fs1 \<Rightarrow> (Inr path, fs1))))"

definition run_all ::
  "'k provider \<Rightarrow> path \<Rightarrow> filesystem \<Rightarrow> string \<Rightarrow> int \<Rightarrow> (error + document) \<times> filesystem" where
  "run_all P NOTEBOOK_DIR fs path timeout =
     (case safe_nb_path NOTEBOOK_DIR path of
        Inl e \<Rightarrow> (Inl e, fs)
      | Inr p \<Rightarrow>
          (case read_nb fs p of
             (Inl e, fs1) \<Rightarrow> (Inl e, fs1)
           | (Inr (nb, h), fs1) \<Rightarrow>
               (case execute P nb timeout h of
                  (executed, h1) \<Rightarrow>
                    (case write_nb fs1 p executed h1 of
                       Inl e \<Rightarrow> (Inl e, fs1)
                     | Inr fs2 \<Rightarrow> (Inr (dump h1 executed), fs2)))))"

text \<open>
  \<open>nb.cells[idx].outputs = v\<close> and \<open>nb.cells[idx].execution_count = v\<close>: assignments to the
  cell object at an address.
\<close>

definition set_outputs :: "heap \<Rightarrow> nat \<Rightarrow> nb_output list \<Rightarrow> heap" where
  "set_outputs h r v = h\<lparr>cell_at := (cell_at h)(r := (cell_at h r)\<lparr>outputs := Present v\<rparr>)\<rparr>"

definition set_execution_count :: "heap \<Rightarrow> nat \<Rightarrow> int option \<Rightarrow> heap" where
  "set_execution_count h r v =
     h\<lparr>cell_at := (cell_at h)(r := (cell_at h r)\<lparr>execution_count := Present v\<rparr>)\<rparr>"

text \<open>
  \<open>run_cell\<close>. The slice \<open>nb.cells[: idx + 1]\<close> is a new list of the same cell objects,
  and \<open>new_notebook(metadata=nb.metadata)\<close> refers to the same metadata object. The answer
  holds the notebook and the source, outputs and execution count of the executed cell.
\<close>

definition run_cell ::
  "'k provider \<Rightarrow> path \<Rightarrow> filesystem \<Rightarrow> string \<Rightarrow> int \<Rightarrow> int
     \<Rightarrow> (error + document \<times> string \<times> nb_output list \<times> int option) \<times> filesystem" where
  "run_cell P NOTEBOOK_DIR fs path cell_index timeout =
     (case safe_nb_path NOTEBOOK_DIR path of
        Inl e \<Rightarrow> (Inl e, fs)
      | Inr p \<Rightarrow>
          (case read_nb fs p of
             (Inl e, fs1) \<Rightarrow> (Inl e, fs1)
           | (Inr (nb, h), fs1) \<Rightarrow>
               (let idx = cell_index in
                if idx < 0 \<or> idx \<ge> int (length (nb_cells nb)) then
                  (Inl (HTTPException 400 (Invalid_cell_index_of idx (length (nb_cells nb)))), fs1)
                else
                  (let partial = \<lparr>nb_metadata = nb_metadata nb,
                                  nb_cells = take (nat (idx + 1)) (nb_cells nb)\<rparr>
                   in case execute P partial timeout h of
                        (executed, h1) \<Rightarrow>
                          if int (length (nb_cells executed)) > idx then
                            (let c = nb_cells executed ! nat idx;
                                 target = nb_cells nb ! nat idx;
                                 h2 = set_outputs h1 target (get_outputs (cell_at h1 c));
                                 h3 = set_execution_count h2 target
                                        (get_execution_count (cell_at h2 c))
                             in case write_nb fs1 p nb h3 of
                                  Inl e \<Rightarrow> (Inl e, fs1)
                                | Inr fs2 \<Rightarrow>
                                    (Inr (dump h3 nb, source (cell_at h3 c),
                                          get_outputs (cell_at h3 c),
                                          get_execution_count (cell_at h3 c)), fs2))
                          else (Inl (HTTPException 500 Cell_execution_failed), fs1)))))"

section \<open>The notebook routes of v2main.py\<close>

definition new_notebook :: document where
  "new_notebook =
     \<lparr>doc_metadata = [(''kernelspec'', ''python3''), (''language_info'', ''python'')],
      doc_cells = [new_markdown_cell ''# New notebook'']\<rparr>"

definition v2_read_nb :: "filesystem \<Rightarrow> path \<Rightarrow> (error + notebook \<times> heap) \<times> filesystem" where
  "v2_read_nb fs path =
     (case files fs path of
        None \<Rightarrow>
          (if writable fs path then (Inr (load new_notebook), store fs path new_notebook)
           else (Inl (Unhandled OSError), fs))
      | Some Garbage \<Rightarrow> (Inl (Unhandled OSError), fs)
      | Some (Notebook d) \<Rightarrow> (Inr (load d), fs))"

definition v2_write_nb :: "filesystem \<Rightarrow> path \<Rightarrow> notebook \<Rightarrow> heap \<Rightarrow> exn + filesystem" where
  "v2_write_nb fs path nb h =
     (if writable fs path then Inr (store fs path (dump h nb)) else Inl OSError)"

definition execute_notebook ::
  "'k provider \<Rightarrow> notebook \<Rightarrow> int \<Rightarrow> heap \<Rightarrow> (exn + notebook) \<times> heap" where
  "execute_notebook P nb timeout h = client_execute P timeout nb h"

definition nb_get ::
  "path \<Rightarrow> filesystem \<Rightarrow> string \<Rightarrow> (error + string \<times> document) \<times> filesystem" where
  "nb_get NOTEBOOK_DIR fs path =
     (case safe_nb_path NOTEBOOK_DIR path of
        Inl e \<Rightarrow> (Inl e, fs)
      | Inr p \<Rightarrow>
          (case v2_read_nb fs p of
             (Inl e, fs1) \<Rightarrow> (Inl e, fs1)
           | (Inr (nb, h), fs1) \<Rightarrow> (Inr (relative_to p NOTEBOOK_DIR, dump h nb), fs1)))"

definition nb_save ::
  "path \<Rightarrow> filesystem \<Rightarrow> string \<Rightarrow> document \<Rightarrow> (error + string) \<times> filesystem" where
  "nb_save NOTEBOOK_DIR fs path req_notebook =
     (case safe_nb_path NOTEBOOK_DIR path of
        Inl e \<Rightarrow> (Inl e, fs)
      | Inr p \<Rightarrow>
          (case load req_notebook of
             (nb, h) \<Rightarrow>
               (case v2_write_nb fs p nb h of
                  Inl e \<Rightarrow> (Inl (Unhandled e), fs)
                | Inr fs1 \<Rightarrow> (Inr (relative_to p NOTEBOOK_DIR), fs1))))"

definition nb_run_all ::
  "'k provider \<Rightarrow> path \<Rightarrow> filesystem \<Rightarrow> string \<Rightarrow> int \<Rightarrow> (error + document) \<times> filesystem" where
  "nb_run_all P NOTEBOOK_DIR fs path timeout =
     (case safe_nb_path NOTEBOOK_DIR path of
        Inl e \<Rightarrow> (Inl e, fs)
      | Inr p \<Rightarrow>
          (case v2_read_nb fs p of
             (Inl e, fs1) \<Rightarrow> (Inl e, fs1)
           | (Inr (nb, h), fs1) \<Rightarrow>
               (case execute_notebook P nb timeout h of
                  (Inl e, h1) \<Rightarrow> (Inl (HTTPException 500 (Notebook_execution_failed_by e)), fs1)
                | (Inr executed, h1) \<Rightarrow>
                    (case v2_write_nb fs1 p executed h1 of
                       Inl e \<Rightarrow> (Inl (HTTPException 500 (Notebook_execution_failed_by e)), fs1)
                     | Inr fs2 \<Rightarrow> (Inr (dump h1 executed), fs2)))))"

text \<open>
  \<open>nb_run_cell\<close>. \<open>[nb.cells[i] for i in range(0, idx + 1)]\<close> lists the same cell objects;
  \<open>executed_partial.cells[-1]\<close> raises \<open>IndexError\<close> on an empty list. The answer holds the
  notebook and the executed cell.
\<close>

definition nb_run_cell ::
  "'k provider \<Rightarrow> path \<Rightarrow> filesystem \<Rightarrow> string \<Rightarrow> int \<Rightarrow> int
     \<Rightarrow> (error + document \<times> cell) \<times> filesystem" where
  "nb_run_cell P NOTEBOOK_DIR fs path cell_index timeout =
     (case safe_nb_path NOTEBOOK_DIR path of
        Inl e \<Rightarrow> (Inl e, fs)
      | Inr p \<Rightarrow>
          (case v2_read_nb fs p of
             (Inl e, fs1) \<Rightarrow> (Inl e, fs1)
           | (Inr (nb, h), fs1) \<Rightarrow>
               (let idx = cell_index in
                if idx < 0 \<or> idx \<ge> int (length (nb_cells nb)) then
                  (Inl (HTTPException 400 Invalid_cell_index), fs1)
                else
                  (let partial = \<lparr>nb_metadata = nb_metadata nb,
                                  nb_cells = map (\<lambda>i. nb_cells nb ! i) [0..<nat (idx + 1)]\<rparr>
                   in case execute_notebook P partial timeout h of
                        (Inl e, h1) \<Rightarrow> (Inl (HTTPException 500 (Cell_execution_failed_by e)), fs1)
                      | (Inr executed_partial, h1) \<Rightarrow>
                          if nb_cells executed_partial = [] then
                            (Inl (HTTPException 500 (Cell_execution_failed_by IndexError)), fs1)
                          else
                            (let executed_cell = last (nb_cells executed_partial);
                                 target = nb_cells nb ! nat idx;
                                 h2 = set_outputs h1 target (get_outputs (cell_at h1 executed_cell));
                                 h3 = set_execution_count h2 target
                                        (get_execution_count (cell_at h2 executed_cell))
                             in case v2_write_nb fs1 p nb h3 of
                                  Inl e \<Rightarrow>
                                    (Inl (HTTPException 500 (Cell_execution_failed_by e)), fs1)
                                | Inr fs2 \<Rightarrow>
                                    (Inr (dump h3 nb, cell_at h3 executed_cell), fs2))))))"

section \<open>What the routes store, stated on documents\<close>

text \<open>
  \<open>executed_document\<close> is a document after a session has run over all its cells;
  \<open>merged_document\<close> is a document after a session has run over its cells up to position
  \<open>i\<close> and cell \<open>i\<close> has been given its own outputs and execution count by the two
  assignments of \<open>run_cell\<close> (\<open>merge_cell\<close>).
\<close>

definition merge_cell :: "cell \<Rightarrow> cell" where
  "merge_cell c =
     c\<lparr>outputs := Present (get_outputs c), execution_count := Present (get_execution_count c)\<rparr>"

definition executed_document :: "'k provider \<Rightarrow> int \<Rightarrow> document \<Rightarrow> document" where
  "executed_document P timeout d =
     \<lparr>doc_metadata = session_metadata P (doc_metadata d),
      doc_cells = session_cells P timeout (doc_cells d)\<rparr>"

definition merged_document :: "'k provider \<Rightarrow> int \<Rightarrow> document \<Rightarrow> nat \<Rightarrow> document" where
  "merged_document P timeout d i =
     \<lparr>doc_metadata = session_metadata P (doc_metadata d),
      doc_cells =
        (let xs = session_cells P timeout (take (i + 1) (doc_cells d))
         in xs[i := merge_cell (xs ! i)] @ drop (i + 1) (doc_cells d))\<rparr>"

text \<open>
  The invariant on markdown cells: a markdown cell has no outputs and no execution count
  (what \<open>cell.get\<close> reads is empty), in a document and in every stored document.
\<close>

definition markdown_clean :: "document \<Rightarrow> bool" where
  "markdown_clean d =
     (\<forall>c\<in>set (doc_cells d). cell_type c = Markdown \<longrightarrow> get_outputs c = [] \<and> get_execution_count c = None)"

definition fs_clean :: "filesystem \<Rightarrow> bool" where
  "fs_clean fs = (\<forall>p d. files fs p = Some (Notebook d) \<longrightarrow> markdown_clean d)"

section \<open>Example sessions, documents and file systems\<close>

text \<open>
  Sessions: one that answers every cell at once with its source on standard output, one
  whose cells take 30, 60, 90, ... seconds and send that output at their end, one that
  answers the first cell it runs and fails with a given fault on the next, and one that
  does not start. A document of three code cells and a markdown cell, two of the code
  cells holding outputs of an earlier run, stored as \<open>a.ipynb\<close> under the root \<open>/srv\<close>;
  and a file system that stores the first two cells of that document as \<open>b.ipynb\<close>.
\<close>

definition stream_output :: "string \<Rightarrow> nb_output" where
  "stream_output body = encode (Stream ''stdout'' body)"

definition code_cell :: "string \<Rightarrow> nb_output list \<Rightarrow> int option \<Rightarrow> cell" where
  "code_cell src outs n =
     \<lparr>cell_type = Code, source = src, outputs = Present outs, execution_count = Present n,
      cell_other = []\<rparr>"

definition echo_provider :: "nat provider" where
  "echo_provider =
     \<lparr>start_kernel = Inr (0, ''python''),
      run_code = (\<lambda>k src. Reply [(0, stream_output src)] 0 (k + 1))\<rparr>"

definition slowing_provider :: "nat provider" where
  "slowing_provider =
     \<lparr>start_kernel = Inr (0, ''python''),
      run_code = (\<lambda>k src. Reply [(30 * (k + 1), stream_output src)] (30 * (k + 1)) (k + 1))\<rparr>"

definition faulting_provider :: "exn \<Rightarrow> nat provider" where
  "faulting_provider e =
     \<lparr>start_kernel = Inr (0, ''python''),
      run_code = (\<lambda>k src. if k = 0 then Reply [(0, stream_output src)] 0 1 else Fails e [])\<rparr>"

definition no_kernel :: "nat provider" where
  "no_kernel =
     \<lparr>start_kernel = Inl KernelStartupFailure,
      run_code = (\<lambda>k src. Reply [] 0 k)\<rparr>"

definition sample_document :: document where
  "sample_document =
     \<lparr>doc_metadata = [],
      doc_cells =
        [code_cell ''x = 1'' [stream_output ''old''] (Some 7),
         code_cell ''print(x)'' [] None,
         new_markdown_cell ''# notes'',
         code_cell ''y'' [stream_output ''old''] (Some 9)]\<rparr>"

definition sample_fs :: filesystem where
  "sample_fs =
     \<lparr>files = (\<lambda>p. if p = [''srv'', ''a.ipynb''] then Some (Notebook sample_document) else None),
      writable = (\<lambda>p. True)\<rparr>"

definition prefix_fs :: filesystem where
  "prefix_fs =
     \<lparr>files = (\<lambda>p. if p = [''srv'', ''b.ipynb'']
                   then Some (Notebook (sample_document\<lparr>doc_cells := take 2 (doc_cells sample_document)\<rparr>))
                   else None),
      writable = (\<lambda>p. True)\<rparr>"


section \<open>Properties of \<open>_outputs_to_text\<close>\<close>

lemma outputs_loop_append: "outputs_loop acc outs = acc @ concat (map output_lines outs)"
  by (induction outs arbitrary: acc) auto

lemma map_of_Str: "map_of (map (\<lambda>(k, v). (k, Str v)) ms) k = map_option Str (map_of ms k)"
  by (induction ms) auto

lemma output_lines_encode: "output_lines (encode r) = emitted r"
proof (cases r)
  case (Stream channel body)
  then show ?thesis by (simp add: output_lines_def)
next
  case (Error nm msg trace)
  then show ?thesis by (simp add: output_lines_def)
next
  case (Display mimes)
  then show ?thesis
    by (simp add: output_lines_def map_of_Str split: option.split)
qed

lemma outputs_to_text_encode:
  "outputs_to_text (map encode rs) = strip (join ''\<newline>'' (concat (map emitted rs)))"
  by (simp add: outputs_to_text_def outputs_loop_append comp_def output_lines_encode)

text \<open>
  C8, as stated, fails on its first example: the two stream texts are two items of
  \<open>lines\<close>, and \<open>"\n".join\<close> puts a newline between them, after the newline that ends the
  first text.
\<close>

theorem C8_two_streams_counterexample:
  "outputs_to_text [encode (Stream ''stdout'' ''a\<newline>''), encode (Stream ''stdout'' ''b\<newline>'')]
     = ''a\<newline>\<newline>b''
   \<and> outputs_to_text [encode (Stream ''stdout'' ''a\<newline>''), encode (Stream ''stdout'' ''b\<newline>'')]
     \<noteq> ''a\<newline>b''"
  by (simp add: outputs_to_text_def output_lines_def strip_def isspace_def)

text \<open>
  C8 (amended): for every sequence of output records, \<open>_outputs_to_text\<close> makes every Stream
  record one item (its text), every Error record the item \<open>"{name}: {message}"\<close> followed by
  one item for each trace line, every Display record one item (its text/plain
  representation) when it has one and no item otherwise; it joins the items, in order,
  with one newline between two items, and trims the whitespace around the result. On
  \<open>[Stream{"a\n"}, Stream{"b\n"}]\<close> the result is \<open>"a\n\nb"\<close>; on
  \<open>[Error{"KeyError", "'x'", ["line1", "line2"]}]\<close> it is \<open>"KeyError: 'x'\nline1\nline2"\<close>.
\<close>

theorem C8_outputs_to_text:
  "outputs_to_text (map encode rs) = strip (join ''\<newline>'' (concat (map emitted rs)))
   \<and> outputs_to_text (map encode [Stream c1 ''a\<newline>'', Stream c2 ''b\<newline>'']) = ''a\<newline>\<newline>b''
   \<and> outputs_to_text (map encode [Error ''KeyError'' (CHR 0x27 # ''x'' @ [CHR 0x27]) [''line1'', ''line2'']])
       = ''KeyError: '' @ (CHR 0x27 # ''x'' @ [CHR 0x27]) @ ''\<newline>line1\<newline>line2''"
proof (intro conjI)
  show "outputs_to_text (map encode rs) = strip (join ''\<newline>'' (concat (map emitted rs)))"
    by (rule outputs_to_text_encode)
  show "outputs_to_text (map encode [Stream c1 ''a\<newline>'', Stream c2 ''b\<newline>'']) = ''a\<newline>\<newline>b''"
    by (simp add: outputs_to_text_def output_lines_def strip_def isspace_def)
  show "outputs_to_text (map encode [Error ''KeyError'' (CHR 0x27 # ''x'' @ [CHR 0x27]) [''line1'', ''line2'']])
       = ''KeyError: '' @ (CHR 0x27 # ''x'' @ [CHR 0x27]) @ ''\<newline>line1\<newline>line2''"
    by (simp add: outputs_to_text_def output_lines_def strip_def isspace_def)
qed

section \<open>Properties of \<open>_safe_nb_path\<close>\<close>

lemma set_parents: "set (parents p) = {take k p | k. k < length p}"
  by (auto simp: parents_def)

lemma parents_iff: "base \<in> set (parents p) \<longleftrightarrow> strict_prefix base p"
proof
  assume "base \<in> set (parents p)"
  then obtain k where k: "k < length p" "base = take k p"
    by (auto simp: set_parents)
  then have "prefix base p" by (simp add: take_is_prefix)
  moreover have "base \<noteq> p" using k by (metis length_take min.absorb4 nat_neq_iff)
  ultimately show "strict_prefix base p" by (simp add: strict_prefix_def)
next
  assume "strict_prefix base p"
  then obtain zs where zs: "p = base @ zs" "zs \<noteq> []"
    by (auto simp: strict_prefix_def prefix_def)
  then have "length base < length p" "base = take (length base) p" by auto
  then show "base \<in> set (parents p)" unfolding set_parents by blast
qed

lemma safe_nb_path_iff:
  "safe_nb_path root rel =
     (case resolve (joinpath root (normalise rel)) of
        Inl e \<Rightarrow> Inl (Unhandled e)
      | Inr p \<Rightarrow>
          if strict_prefix root p \<or> p = root then Inr p
          else Inl (HTTPException 400 Invalid_notebook_path))"
  by (auto simp: safe_nb_path_def parents_iff split: sum.splits)

lemma safe_nb_path_Inr:
  "safe_nb_path root rel = Inr p \<longleftrightarrow>
     CHR 0x00 \<notin> set (concat (joinpath root (normalise rel)))
     \<and> p = resolve_names [] (joinpath root (normalise rel))
     \<and> (strict_prefix root p \<or> p = root)"
  by (auto simp: safe_nb_path_iff resolve_def split: sum.splits if_splits)

lemmas path_eval = safe_nb_path_iff normalise_def strip_def isspace_def lstrip_char_def
  replace_char_def endswith_def suffix_to_prefix joinpath_def is_absolute_def parts_def
  resolve_def path_str_def relative_to_def


(* split / join *)
lemma split_on_nonempty: "split_on c s \<noteq> []"
  by (induction s) (auto split: list.splits)

lemma split_on_no_sep: "c \<notin> set s \<Longrightarrow> split_on c s = [s]"
  by (induction s) auto

lemma split_on_append: "c \<notin> set n \<Longrightarrow> split_on c (n @ c # r) = n # split_on c r"
  by (induction n) auto

lemma split_on_join:
  "ns \<noteq> [] \<Longrightarrow> \<forall>n\<in>set ns. c \<notin> set n \<Longrightarrow> split_on c (join [c] ns) = ns"
  by (induction "[c]" ns rule: join.induct) (auto simp: split_on_no_sep split_on_append)

lemma split_on_names: "n \<in> set (split_on c s) \<Longrightarrow> c \<notin> set n"
  by (induction s arbitrary: n) (auto split: if_splits list.splits)

lemma split_on_subset: "n \<in> set (split_on c s) \<Longrightarrow> x \<in> set n \<Longrightarrow> x \<in> set s"
  by (induction s arbitrary: n) (fastforce split: if_splits list.splits)+

lemma split_on_last_suffix:
  "suffix suf s \<Longrightarrow> c \<notin> set suf \<Longrightarrow> suffix suf (last (split_on c s))"
proof (induction s)
  case Nil
  then show ?case by simp
next
  case (Cons x xs)
  show ?case
  proof (cases "suf = x # xs")
    case True
    then show ?thesis using Cons.prems by (auto simp: split_on_no_sep)
  next
    case False
    then have "suffix suf xs" using Cons.prems(1) by (simp add: suffix_Cons)
    then have ih: "suffix suf (last (split_on c xs))" using Cons by simp
    then show ?thesis
      using split_on_nonempty[of c xs]
      by (cases "split_on c xs") (auto simp: suffix_Cons)
  qed
qed

lemma resolve_names_append:
  "resolve_names st (xs @ ys) = resolve_names (resolve_names st xs) ys"
  by (induction xs arbitrary: st) auto

lemma resolve_names_plain: "''..'' \<notin> set ns \<Longrightarrow> resolve_names st ns = st @ ns"
  by (induction ns arbitrary: st) auto

lemma resolve_names_set: "set (resolve_names st ns) \<subseteq> set st \<union> set ns"
proof (induction ns arbitrary: st)
  case Nil
  then show ?case by simp
next
  case (Cons n ns)
  have "set (butlast st) \<subseteq> set st" by (auto dest: in_set_butlastD)
  then show ?case using Cons.IH[of "butlast st"] Cons.IH[of "st @ [n]"] by auto
qed

lemma resolve_names_length: "length (resolve_names st ns) \<le> length st + length ns"
proof (induction ns arbitrary: st)
  case Nil
  then show ?case by simp
next
  case (Cons n ns)
  show ?case
  proof (cases "n = ''..''")
    case True
    have "length (resolve_names (butlast st) ns) \<le> length (butlast st) + length ns"
      by (rule Cons.IH)
    then show ?thesis using True by simp
  next
    case False
    have "length (resolve_names (st @ [n]) ns) \<le> length (st @ [n]) + length ns"
      by (rule Cons.IH)
    then show ?thesis using False by simp
  qed
qed

lemma resolve_names_drop:
  "x \<in> set (drop k (resolve_names st ns)) \<Longrightarrow> x \<in> set (drop k st) \<or> (x \<in> set ns \<and> x \<noteq> ''..'')"
proof (induction ns arbitrary: st)
  case Nil
  then show ?case by simp
next
  case (Cons n ns)
  show ?case
  proof (cases "n = ''..''")
    case True
    with Cons.prems have "x \<in> set (drop k (resolve_names (butlast st) ns))" by simp
    then have "x \<in> set (drop k (butlast st)) \<or> (x \<in> set ns \<and> x \<noteq> ''..'')" by (rule Cons.IH)
    moreover have "set (drop k (butlast st)) \<subseteq> set (drop k st)"
      by (metis butlast_drop in_set_butlastD subsetI)
    ultimately show ?thesis by auto
  next
    case False
    with Cons.prems have "x \<in> set (drop k (resolve_names (st @ [n]) ns))" by simp
    then have "x \<in> set (drop k (st @ [n])) \<or> (x \<in> set ns \<and> x \<noteq> ''..'')" by (rule Cons.IH)
    then show ?thesis using False by (auto dest: in_set_dropD)
  qed
qed

lemma join_hd: "ns \<noteq> [] \<Longrightarrow> hd ns \<noteq> [] \<Longrightarrow> hd (join sep ns) = hd (hd ns)"
  by (induction sep ns rule: join.induct) auto

lemma join_nonempty: "ns \<noteq> [] \<Longrightarrow> hd ns \<noteq> [] \<Longrightarrow> join sep ns \<noteq> []"
  by (induction sep ns rule: join.induct) auto

lemma join_suffix: "ns \<noteq> [] \<Longrightarrow> suffix (last ns) (join sep ns)"
  by (induction sep ns rule: join.induct) (auto simp: suffix_append)

lemma join_set: "x \<in> set (join sep ns) \<Longrightarrow> x \<in> set sep \<or> (\<exists>n\<in>set ns. x \<in> set n)"
  by (induction sep ns rule: join.induct) auto

lemma strip_id: "s \<noteq> [] \<Longrightarrow> \<not> isspace (hd s) \<Longrightarrow> \<not> isspace (last s) \<Longrightarrow> strip s = s"
proof -
  assume a: "s \<noteq> []" "\<not> isspace (hd s)" "\<not> isspace (last s)"
  then have "dropWhile isspace s = s" by (cases s) auto
  moreover have "dropWhile isspace (rev s) = rev s"
    using a by (cases "rev s") (auto simp: hd_rev[symmetric])
  ultimately show ?thesis by (simp add: strip_def)
qed

lemma lstrip_char_id: "s \<noteq> [] \<Longrightarrow> hd s \<noteq> c \<Longrightarrow> lstrip_char c s = s"
  by (cases s) (auto simp: lstrip_char_def)

lemma replace_char_id: "a \<notin> set s \<Longrightarrow> replace_char a b s = s"
  by (induction s) (auto simp: replace_char_def)

lemma replace_char_set: "a \<noteq> b \<Longrightarrow> a \<notin> set (replace_char a b s)"
  by (auto simp: replace_char_def)

lemma normalise_suffix: "suffix ''.ipynb'' (normalise rel)"
  by (simp add: normalise_def Let_def endswith_def suffix_def)

lemma normalise_no_backslash: "CHR 0x5C \<notin> set (normalise rel)"
  by (simp add: normalise_def Let_def replace_char_set)


lemma normalise_id:
  assumes "s \<noteq> []" "\<not> isspace (hd s)" "hd s \<noteq> CHR ''/''" "CHR 0x5C \<notin> set s" "suffix ''.ipynb'' s"
  shows "normalise s = s"
proof -
  have "\<not> isspace (last s)"
    using assms(5) by (auto simp: suffix_def isspace_def)
  then have "strip s = s" using assms by (simp add: strip_id)
  then show ?thesis using assms
    by (simp add: normalise_def Let_def lstrip_char_id replace_char_id endswith_def)
qed

lemma parts_names:
  "n \<in> set (parts s) \<Longrightarrow> n \<noteq> [] \<and> n \<noteq> ''.'' \<and> CHR ''/'' \<notin> set n \<and> (\<forall>x\<in>set n. x \<in> set s)"
  by (auto simp: parts_def dest: split_on_names split_on_subset)

lemma parts_last:
  assumes "suffix ''.ipynb'' s"
  shows "\<exists>pre w. parts s = pre @ [w] \<and> suffix ''.ipynb'' w"
proof -
  define w where "w = last (split_on CHR ''/'' s)"
  have sw: "suffix ''.ipynb'' w" unfolding w_def using assms by (rule split_on_last_suffix) simp
  then have "w \<noteq> [] \<and> w \<noteq> ''.''" by (auto simp: suffix_def)
  moreover obtain xs where "split_on CHR ''/'' s = xs @ [w]"
    unfolding w_def using split_on_nonempty[of "CHR ''/''" s] by (metis append_butlast_last_id)
  ultimately have "parts s = filter (\<lambda>n. n \<noteq> [] \<and> n \<noteq> ''.'') xs @ [w]"
    unfolding parts_def by simp
  then show ?thesis using sw by blast
qed

lemma resolve_last:
  assumes "suffix ''.ipynb'' s"
  shows "\<exists>q w. resolve_names [] (joinpath base s) = q @ [w] \<and> suffix ''.ipynb'' w"
proof -
  obtain pre w where pw: "parts s = pre @ [w]" "suffix ''.ipynb'' w"
    using parts_last[OF assms] by blast
  then have "w \<noteq> ''..''" by (auto simp: suffix_def)
  then have step: "resolve_names st (pre @ [w]) = resolve_names st pre @ [w]" for st
    by (simp add: resolve_names_append)
  show ?thesis
  proof (cases "is_absolute s")
    case True
    then have "resolve_names [] (joinpath base s) = resolve_names [] pre @ [w]"
      by (simp add: joinpath_def pw(1) step)
    then show ?thesis using pw(2) by blast
  next
    case False
    then have "resolve_names [] (joinpath base s) = resolve_names (resolve_names [] base) pre @ [w]"
      by (simp add: joinpath_def pw(1) resolve_names_append[of _ base] step)
    then show ?thesis using pw(2) by blast
  qed
qed

lemma resolve_tail:
  assumes "''..'' \<notin> set base" "x \<in> set (drop (length base) (resolve_names [] (joinpath base s)))"
  shows "x \<in> set (parts s) \<and> x \<noteq> ''..''"
proof (cases "is_absolute s")
  case True
  then show ?thesis using assms(2) resolve_names_drop[of x "length base" "[]" "parts s"]
    by (simp add: joinpath_def)
next
  case False
  then show ?thesis using assms resolve_names_drop[of x "length base" base "parts s"]
    by (simp add: joinpath_def resolve_names_append resolve_names_plain)
qed

lemma safe_nb_path_relative:
  assumes root: "''..'' \<notin> set root"
      and acc: "safe_nb_path root rel = Inr p"
      and ne: "p \<noteq> root"
      and ws: "\<not> isspace (hd (relative_to p root))"
  shows "safe_nb_path root (relative_to p root) = Inr p"
proof -
  define s where "s = normalise rel"
  have p: "p = resolve_names [] (joinpath root s)" and sp: "strict_prefix root p"
    and nul: "CHR 0x00 \<notin> set (concat (joinpath root s))"
    using acc ne by (auto simp: safe_nb_path_Inr s_def)
  define comps where "comps = drop (length root) p"
  have pc: "p = root @ comps" and cne: "comps \<noteq> []"
    using sp by (auto simp: comps_def strict_prefix_def prefix_def)
  have names: "n \<noteq> [] \<and> n \<noteq> ''.'' \<and> n \<noteq> ''..'' \<and> CHR ''/'' \<notin> set n \<and> CHR 0x5C \<notin> set n"
    if "n \<in> set comps" for n
  proof -
    have "n \<in> set (parts s) \<and> n \<noteq> ''..''"
      using that root unfolding comps_def p by (rule resolve_tail[rotated])
    then show ?thesis using parts_names[of n s] normalise_no_backslash[of rel]
      by (auto simp: s_def)
  qed
  have "set p \<subseteq> set (joinpath root s)"
    unfolding p using resolve_names_set[of "[]" "joinpath root s"] by simp
  then have pnul: "CHR 0x00 \<notin> set (concat p)" using nul by auto
  obtain q w where qw: "p = q @ [w]" "suffix ''.ipynb'' w"
    using resolve_last[of s root] normalise_suffix[of rel] by (auto simp: p s_def)
  have "last comps = last p" using pc cne by simp
  then have lc: "suffix ''.ipynb'' (last comps)" using qw by simp
  define r where "r = join ''/'' comps"
  have rel: "relative_to p root = r" using ne by (simp add: relative_to_def r_def comps_def)
  have hdc: "hd comps \<in> set comps" using cne by simp
  have r1: "r \<noteq> []" unfolding r_def using cne names[OF hdc] by (simp add: join_nonempty)
  have r2: "hd r = hd (hd comps)" unfolding r_def using cne names[OF hdc] by (simp add: join_hd)
  have r3: "hd r \<noteq> CHR ''/''" using r2 names[OF hdc] by (metis hd_in_set)
  have r4: "CHR 0x5C \<notin> set r" unfolding r_def using names by (auto dest!: join_set)
  have r5: "suffix ''.ipynb'' r" unfolding r_def using lc join_suffix[OF cne] suffix_order.trans by blast
  have nr: "normalise r = r" using r1 ws r3 r4 r5 unfolding rel by (rule normalise_id)
  have "\<not> is_absolute r" using r1 r3 by (cases r) (auto simp: is_absolute_def)
  moreover have "parts r = comps"
  proof -
    have "split_on CHR ''/'' r = comps" unfolding r_def using cne names by (simp add: split_on_join)
    then show ?thesis using names by (simp add: parts_def filter_id_conv)
  qed
  moreover have "''..'' \<notin> set (root @ comps)" using root names by auto
  ultimately have "joinpath root r = root @ comps" "resolve_names [] (root @ comps) = root @ comps"
    by (simp_all add: joinpath_def resolve_names_plain)
  then show ?thesis using cne pnul unfolding rel
    by (simp add: safe_nb_path_Inr nr pc strict_prefix_def)
qed



section \<open>The session on the store and on documents\<close>

lemma execute_cells_run_cells:
  "distinct rs \<Longrightarrow> execute_cells P t n k rs h = (e, h') \<Longrightarrow>
     e = fst (run_cells P t n k (map (cell_at h) rs))
     \<and> map (cell_at h') rs = snd (run_cells P t n k (map (cell_at h) rs))
     \<and> (\<forall>r. r \<notin> set rs \<longrightarrow> cell_at h' r = cell_at h r)
     \<and> meta_at h' = meta_at h"
proof (induction rs arbitrary: n k h)
  case Nil
  then show ?case by simp
next
  case (Cons r rs)
  let ?c = "cell_at h r"
  show ?case
  proof (cases "executes ?c")
    case False
    with Cons.prems have ex: "execute_cells P t n k rs h = (e, h')" by simp
    from Cons.prems have d: "distinct rs" "r \<notin> set rs" by auto
    from Cons.IH[OF d(1) ex] d(2) False show ?thesis
      by (auto simp: split_beta)
  next
    case True
    show ?thesis
    proof (cases "await_reply P k t (source ?c)")
      case (Done outs k')
      let ?c' = "?c\<lparr>outputs := Present outs, execution_count := Present (Some (int n + 1))\<rparr>"
      let ?h1 = "h\<lparr>cell_at := (cell_at h)(r := ?c')\<rparr>"
      from Cons.prems True Done have ex: "execute_cells P t (n + 1) k' rs ?h1 = (e, h')"
        by (simp add: Let_def)
      from Cons.prems have d: "distinct rs" "r \<notin> set rs" by auto
      have m: "map (cell_at ?h1) rs = map (cell_at h) rs" using d(2) by auto
      from Cons.IH[OF d(1) ex] have ih:
        "e = fst (run_cells P t (n + 1) k' (map (cell_at h) rs))"
        "map (cell_at h') rs = snd (run_cells P t (n + 1) k' (map (cell_at h) rs))"
        "\<forall>q. q \<notin> set rs \<longrightarrow> cell_at h' q = cell_at ?h1 q"
        "meta_at h' = meta_at ?h1"
        unfolding m by auto
      from ih(3) d(2) have "cell_at h' r = ?c'" by simp
      with ih True Done show ?thesis by (auto simp: split_beta)
    next
      case (Struck x outs)
      with Cons.prems True have "e = Some x"
        "h' = h\<lparr>cell_at := (cell_at h)(r := ?c\<lparr>outputs := Present outs,
                                               execution_count := Present (Some (int n + 1))\<rparr>)\<rparr>"
        by (auto simp: Let_def)
      moreover from Cons.prems have "r \<notin> set rs" by auto
      ultimately show ?thesis using True Struck by auto
    qed
  qed
qed

lemma run_cells_length: "length (snd (run_cells P t n k cs)) = length cs"
  by (induction cs arbitrary: n k) (auto simp: split_beta split: outcome.splits)

lemma session_cells_length: "length (session_cells P t cs) = length cs"
  by (auto simp: session_cells_def run_cells_length split: sum.splits)

lemma client_execute_effect:
  assumes "distinct (nb_cells nb)" "client_execute P t nb h = (res, h')"
  shows "res = (case session_fault P t (map (cell_at h) (nb_cells nb)) of None \<Rightarrow> Inr nb | Some e \<Rightarrow> Inl e)
    \<and> map (cell_at h') (nb_cells nb) = session_cells P t (map (cell_at h) (nb_cells nb))
    \<and> (\<forall>r. r \<notin> set (nb_cells nb) \<longrightarrow> cell_at h' r = cell_at h r)
    \<and> meta_at h' (nb_metadata nb) = session_metadata P (meta_at h (nb_metadata nb))
    \<and> (\<forall>m. m \<noteq> nb_metadata nb \<longrightarrow> meta_at h' m = meta_at h m)"
proof (cases "start_kernel P")
  case (Inl e)
  with assms(2) have "res = Inl e" "h' = h" by (auto simp: client_execute_def)
  with Inl show ?thesis
    by (auto simp: session_fault_def session_cells_def session_metadata_def)
next
  case (Inr ki)
  obtain k info where ki: "ki = (k, info)" by (cases ki)
  let ?m = "nb_metadata nb"
  let ?h1 = "h\<lparr>meta_at := (meta_at h)(?m := AList.update ''language_info'' info (meta_at h ?m))\<rparr>"
  obtain e h2 where ex: "execute_cells P t 0 k (nb_cells nb) ?h1 = (e, h2)" by fastforce
  from execute_cells_run_cells[OF assms(1) ex]
  have r: "e = fst (run_cells P t 0 k (map (cell_at h) (nb_cells nb)))"
    "map (cell_at h2) (nb_cells nb) = snd (run_cells P t 0 k (map (cell_at h) (nb_cells nb)))"
    "\<forall>r. r \<notin> set (nb_cells nb) \<longrightarrow> cell_at h2 r = cell_at h r"
    "meta_at h2 = meta_at ?h1" by auto
  from assms(2) Inr ki ex have "h' = h2" "res = (case e of None \<Rightarrow> Inr nb | Some x \<Rightarrow> Inl x)"
    by (auto simp: client_execute_def Let_def split: option.splits)
  with r Inr ki show ?thesis
    by (auto simp: session_fault_def session_cells_def session_metadata_def)
qed

lemma execute_same_notebook: "fst (execute P nb t h) = nb"
  by (auto simp: execute_def client_execute_def Let_def split: sum.splits prod.splits option.splits)

lemma execute_heap: "snd (execute P nb t h) = snd (client_execute P t nb h)"
  by (auto simp: execute_def split: sum.splits prod.splits)

lemma map_nth_guard: "map (\<lambda>r. if r < length xs then xs ! r else c) [0..<length xs] = xs"
  by (rule nth_equalityI) auto

lemma load_dump: "load d = (nb, h) \<Longrightarrow> dump h nb = d"
  by (auto simp: load_def dump_def map_nth_guard)


lemma load_facts:
  assumes "load d = (nb, h)"
  shows "nb = \<lparr>nb_metadata = 0, nb_cells = [0..<length (doc_cells d)]\<rparr>"
    and "\<And>r. r < length (doc_cells d) \<Longrightarrow> cell_at h r = doc_cells d ! r"
    and "meta_at h 0 = doc_metadata d"
  using assms by (auto simp: load_def)

lemma load_take:
  assumes "load d = (nb, h)" "m \<le> length (doc_cells d)"
  shows "map (cell_at h) [0..<m] = take m (doc_cells d)"
  using assms by (intro nth_equalityI) (auto simp: load_def)

lemma execute_prefix:
  assumes ld: "load d = (nb, h)" and m: "m \<le> length (doc_cells d)"
      and ex: "execute P \<lparr>nb_metadata = 0, nb_cells = [0..<m]\<rparr> t h = (executed, h1)"
  shows "executed = \<lparr>nb_metadata = 0, nb_cells = [0..<m]\<rparr>
    \<and> map (cell_at h1) [0..<m] = session_cells P t (take m (doc_cells d))
    \<and> (\<forall>r. m \<le> r \<longrightarrow> cell_at h1 r = cell_at h r)
    \<and> meta_at h1 0 = session_metadata P (doc_metadata d)"
proof -
  let ?nb = "\<lparr>nb_metadata = 0, nb_cells = [0..<m]\<rparr>"
  have e1: "executed = ?nb" using ex execute_same_notebook[of P ?nb t h] by simp
  obtain res where ce: "client_execute P t ?nb h = (res, h1)"
    using ex execute_heap[of P ?nb t h] by (cases "client_execute P t ?nb h") auto
  have "distinct (nb_cells ?nb)" by simp
  from client_execute_effect[OF this ce] load_take[OF ld m] load_facts(3)[OF ld] e1
  show ?thesis by auto
qed

lemma run_all_stored:
  assumes "safe_nb_path root path = Inr p" "files fs p = Some (Notebook d)"
  shows "run_all P root fs path t =
    (if writable fs p
     then (Inr (executed_document P t d), store fs p (executed_document P t d))
     else (Inl (HTTPException 500 Failed_to_write_notebook), fs))"
proof -
  obtain nb h where ld: "load d = (nb, h)" by fastforce
  have nb: "nb = \<lparr>nb_metadata = 0, nb_cells = [0..<length (doc_cells d)]\<rparr>"
    by (rule load_facts(1)[OF ld])
  obtain executed h1 where ex: "execute P nb t h = (executed, h1)" by fastforce
  from execute_prefix[OF ld order_refl ex[unfolded nb]]
  have "dump h1 executed = executed_document P t d"
    by (simp add: dump_def executed_document_def)
  then show ?thesis using assms ld ex
    by (simp add: run_all_def read_nb_def write_nb_def)
qed

lemma get_ec_outputs_update [simp]:
  "get_execution_count (c\<lparr>outputs := v\<rparr>) = get_execution_count c"
  by (simp add: get_execution_count_def)

lemma merged_cells:
  assumes i: "i < n" and n: "n = length cs"
      and b: "\<forall>r. i + 1 \<le> r \<longrightarrow> r < n \<longrightarrow> f r = cs ! r"
  shows "map (f(i := merge_cell (f i))) [0..<n] =
         (map f [0..<i + 1])[i := merge_cell (map f [0..<i + 1] ! i)] @ drop (i + 1) cs"
proof (rule nth_equalityI)
  show "length (map (f(i := merge_cell (f i))) [0..<n]) =
        length ((map f [0..<i + 1])[i := merge_cell (map f [0..<i + 1] ! i)] @ drop (i + 1) cs)"
    using i n by auto
next
  fix j assume "j < length (map (f(i := merge_cell (f i))) [0..<n])"
  then have j: "j < n" by simp
  have ii: "[0..<i + 1] ! i = i" by (simp add: nth_append)
  consider "j < i" | "j = i" | "i < j" by linarith
  then show "map (f(i := merge_cell (f i))) [0..<n] ! j =
     ((map f [0..<i + 1])[i := merge_cell (map f [0..<i + 1] ! i)] @ drop (i + 1) cs) ! j"
  proof cases
    case 1
    then have "[0..<i + 1] ! j = j" by (simp add: nth_append)
    then show ?thesis using 1 j by (simp add: nth_append del: upt_Suc)
  next
    case 2
    then show ?thesis using j ii by (simp add: nth_append del: upt_Suc)
  next
    case 3
    then have "f j = cs ! j" using b j by simp
    moreover have "drop (i + 1) cs ! (j - (i + 1)) = cs ! j" using 3 j n by simp
    ultimately show ?thesis using 3 j by (simp add: nth_append del: upt_Suc)
  qed
qed


lemma run_cell_stored:
  assumes sp: "safe_nb_path root path = Inr p" and st: "files fs p = Some (Notebook d)"
      and lo: "0 \<le> idx" and hi: "idx < int (length (doc_cells d))"
  shows "run_cell P root fs path idx t =
    (if writable fs p
     then (Inr (merged_document P t d (nat idx),
                source (doc_cells (merged_document P t d (nat idx)) ! nat idx),
                get_outputs (doc_cells (merged_document P t d (nat idx)) ! nat idx),
                get_execution_count (doc_cells (merged_document P t d (nat idx)) ! nat idx)),
           store fs p (merged_document P t d (nat idx)))
     else (Inl (HTTPException 500 Failed_to_write_notebook), fs))"
proof -
  define i where "i = nat idx"
  define n where "n = length (doc_cells d)"
  have i: "i < n" "nat (idx + 1) = i + 1" "int i = idx" using lo hi by (auto simp: i_def n_def)
  obtain nb h where ld: "load d = (nb, h)" by fastforce
  have nb: "nb = \<lparr>nb_metadata = 0, nb_cells = [0..<n]\<rparr>"
    unfolding n_def by (rule load_facts(1)[OF ld])
  let ?partial = "\<lparr>nb_metadata = 0, nb_cells = [0..<i + 1]\<rparr>"
  have tk: "take (i + 1) [0..<n] = [0..<i + 1]" using i(1) by (simp add: take_upt)
  obtain executed h1 where ex: "execute P ?partial t h = (executed, h1)" by fastforce
  have m: "i + 1 \<le> length (doc_cells d)" using i(1) by (simp add: n_def)
  from execute_prefix[OF ld m ex]
  have e: "executed = ?partial"
    and c1: "map (cell_at h1) [0..<i + 1] = session_cells P t (take (i + 1) (doc_cells d))"
    and c2: "\<forall>r. i + 1 \<le> r \<longrightarrow> cell_at h1 r = cell_at h r"
    and c3: "meta_at h1 0 = session_metadata P (doc_metadata d)" by auto
  define h3 where "h3 = set_execution_count (set_outputs h1 i (get_outputs (cell_at h1 i))) i
      (get_execution_count (cell_at (set_outputs h1 i (get_outputs (cell_at h1 i))) i))"
  have h3c: "cell_at h3 = (cell_at h1)(i := merge_cell (cell_at h1 i))"
    by (auto simp: h3_def set_outputs_def set_execution_count_def merge_cell_def)
  have h3m: "meta_at h3 = meta_at h1"
    by (simp add: h3_def set_outputs_def set_execution_count_def)
  have c2': "\<forall>r. i + 1 \<le> r \<longrightarrow> r < n \<longrightarrow> cell_at h1 r = doc_cells d ! r"
    using c2 load_facts(2)[OF ld] by (simp add: n_def)
  have cells: "map (cell_at h3) [0..<n] = doc_cells (merged_document P t d i)"
    unfolding h3c merged_cells[OF i(1) n_def c2'] c1
    by (simp add: merged_document_def Let_def)
  have dm: "dump h3 nb = merged_document P t d i"
    using cells c3 h3m by (simp add: dump_def nb merged_document_def)
  have ci: "cell_at h3 i = doc_cells (merged_document P t d i) ! i"
  proof -
    have "map (cell_at h3) [0..<n] ! i = cell_at h3 i" using i(1) by simp
    then show ?thesis by (simp add: cells)
  qed
  have rd: "read_nb fs p = (Inr (nb, h), fs)" using st ld by (simp add: read_nb_def)
  have len: "length (nb_cells nb) = n" by (simp add: nb)
  have ix: "[0..<i + 1] ! i = i" "[0..<n] ! i = i" using i(1) by (auto simp: nth_append)
  show ?thesis
    unfolding run_cell_def sp sum.case rd prod.case Let_def len
    using lo hi i ex e dm ci ix
    by (simp add: nb tk n_def[symmetric] i_def[symmetric] h3_def[symmetric] write_nb_def)
qed


section \<open>The routes on documents\<close>

lemma run_cells_rel:
  "list_all2 (\<lambda>c c'. cell_type c' = cell_type c \<and> (\<not> executes c \<longrightarrow> c' = c))
     cs (snd (run_cells P t n k cs))"
proof (induction cs arbitrary: n k)
  case Nil
  then show ?case by simp
next
  case (Cons c cs)
  have refl: "list_all2 (\<lambda>c c'. cell_type c' = cell_type c \<and> (\<not> executes c \<longrightarrow> c' = c)) cs cs"
    by (simp add: list_all2_same)
  show ?case using Cons.IH refl
    by (auto simp: split_beta split: outcome.splits)
qed

lemma session_cells_rel:
  "list_all2 (\<lambda>c c'. cell_type c' = cell_type c \<and> (\<not> executes c \<longrightarrow> c' = c))
     cs (session_cells P t cs)"
  by (auto simp: session_cells_def run_cells_rel list_all2_same split: sum.splits)

lemma session_cells_markdown:
  assumes "c' \<in> set (session_cells P t cs)" "cell_type c' = Markdown"
  shows "c' \<in> set cs"
proof -
  from assms(1) obtain j where j: "j < length (session_cells P t cs)" "c' = session_cells P t cs ! j"
    by (auto simp: in_set_conv_nth)
  from session_cells_rel[of cs P t] j have
    "j < length cs" "cell_type c' = cell_type (cs ! j)" "\<not> executes (cs ! j) \<longrightarrow> c' = cs ! j"
    by (auto simp: list_all2_conv_all_nth)
  then show ?thesis using assms(2) by (auto simp: executes_def)
qed

lemma markdown_clean_executed:
  "markdown_clean d \<Longrightarrow> markdown_clean (executed_document P t d)"
  unfolding markdown_clean_def executed_document_def
  using session_cells_markdown by fastforce

lemma merge_cell_clean:
  "get_outputs c = [] \<and> get_execution_count c = None \<Longrightarrow>
   get_outputs (merge_cell c) = [] \<and> get_execution_count (merge_cell c) = None"
  by (simp add: merge_cell_def get_outputs_def get_execution_count_def)

lemma merge_cell_get [simp]:
  "get_outputs (merge_cell c) = get_outputs c"
  "get_execution_count (merge_cell c) = get_execution_count c"
  "cell_type (merge_cell c) = cell_type c"
  "source (merge_cell c) = source c"
  by (simp_all add: merge_cell_def get_outputs_def get_execution_count_def)

lemma markdown_clean_merged:
  assumes "markdown_clean d" "i < length (doc_cells d)"
  shows "markdown_clean (merged_document P t d i)"
proof -
  define xs where "xs = session_cells P t (take (i + 1) (doc_cells d))"
  have lx: "length xs = i + 1" using assms(2) by (simp add: xs_def session_cells_length)
  have clean: "get_outputs c = [] \<and> get_execution_count c = None"
    if "c \<in> set (doc_cells d)" "cell_type c = Markdown" for c
    using assms(1) that by (auto simp: markdown_clean_def)
  have xs_md: "c \<in> set (doc_cells d)" if "c \<in> set xs" "cell_type c = Markdown" for c
    using session_cells_markdown[of c P t "take (i + 1) (doc_cells d)"] that
    by (auto simp: xs_def dest: in_set_takeD)
  have "get_outputs c = [] \<and> get_execution_count c = None"
    if c: "c \<in> set (xs[i := merge_cell (xs ! i)] @ drop (i + 1) (doc_cells d))"
      and md: "cell_type c = Markdown" for c
  proof -
    from c consider "c = merge_cell (xs ! i)" | "c \<in> set xs" | "c \<in> set (drop (i + 1) (doc_cells d))"
      using set_update_subset_insert[of xs i "merge_cell (xs ! i)"] by auto
    then show ?thesis
    proof cases
      case 1
      then have "cell_type (xs ! i) = Markdown" using md by simp
      moreover have "xs ! i \<in> set xs" using lx by simp
      ultimately have "get_outputs (xs ! i) = [] \<and> get_execution_count (xs ! i) = None"
        using xs_md clean by blast
      then show ?thesis using 1 by simp
    next
      case 2
      then show ?thesis using xs_md clean md by blast
    next
      case 3
      then show ?thesis using clean md by (auto dest: in_set_dropD)
    qed
  qed
  then show ?thesis
    unfolding markdown_clean_def merged_document_def xs_def[symmetric] by (simp add: Let_def)
qed

lemma markdown_clean_default: "markdown_clean default_document" "markdown_clean new_notebook"
  by (simp_all add: markdown_clean_def default_document_def new_notebook_def new_markdown_cell_def
      get_outputs_def get_execution_count_def)

lemma fs_clean_store: "fs_clean fs \<Longrightarrow> markdown_clean d \<Longrightarrow> fs_clean (store fs p d)"
  by (auto simp: fs_clean_def store_def)

lemma run_all_missing:
  assumes "safe_nb_path root path = Inr p" "files fs p = None"
  shows "run_all P root fs path t =
    (if writable fs p then run_all P root (store fs p default_document) path t
     else (Inl (Unhandled OSError), fs))"
  using assms by (simp add: run_all_def read_nb_def store_def)

lemma run_cell_missing:
  assumes "safe_nb_path root path = Inr p" "files fs p = None"
  shows "run_cell P root fs path idx t =
    (if writable fs p then run_cell P root (store fs p default_document) path idx t
     else (Inl (Unhandled OSError), fs))"
  using assms by (simp add: run_cell_def read_nb_def store_def)

lemma run_cell_range:
  assumes "safe_nb_path root path = Inr p" "files fs p = Some (Notebook d)"
      and "idx < 0 \<or> int (length (doc_cells d)) \<le> idx"
  shows "run_cell P root fs path idx t =
    (Inl (HTTPException 400 (Invalid_cell_index_of idx (length (doc_cells d)))), fs)"
  using assms by (auto simp: run_cell_def read_nb_def load_def)

lemma fs_clean_run_all: "fs_clean fs \<Longrightarrow> fs_clean (snd (run_all P root fs path t))"
proof -
  assume fc: "fs_clean fs"
  have stored: "fs_clean (snd (run_all P root fs' path t))"
    if "safe_nb_path root path = Inr p" "files fs' p = Some (Notebook d)" "fs_clean fs'" for p d fs'
  proof -
    have "markdown_clean d" using that by (auto simp: fs_clean_def)
    then show ?thesis using that
      by (simp add: run_all_stored[OF that(1,2)] fs_clean_store markdown_clean_executed)
  qed
  show ?thesis
  proof (cases "safe_nb_path root path")
    case (Inl e)
    then show ?thesis using fc by (simp add: run_all_def)
  next
    case (Inr p)
    show ?thesis
    proof (cases "files fs p")
      case None
      have "fs_clean (store fs p default_document)"
        using fc by (simp add: fs_clean_store markdown_clean_default)
      moreover have "files (store fs p default_document) p = Some (Notebook default_document)"
        by (simp add: store_def)
      ultimately show ?thesis using stored[OF Inr] fc
        by (simp add: run_all_missing[OF Inr None])
    next
      case (Some f)
      show ?thesis
      proof (cases f)
        case (Notebook d)
        then show ?thesis using stored[OF Inr _ fc] Some by simp
      next
        case Garbage
        then show ?thesis using fc Inr Some by (simp add: run_all_def read_nb_def)
      qed
    qed
  qed
qed

lemma fs_clean_run_cell: "fs_clean fs \<Longrightarrow> fs_clean (snd (run_cell P root fs path idx t))"
proof -
  assume fc: "fs_clean fs"
  have stored: "fs_clean (snd (run_cell P root fs' path idx t))"
    if "safe_nb_path root path = Inr p" "files fs' p = Some (Notebook d)" "fs_clean fs'" for p d fs'
  proof (cases "0 \<le> idx \<and> idx < int (length (doc_cells d))")
    case True
    have "markdown_clean d" using that by (auto simp: fs_clean_def)
    then have "markdown_clean (merged_document P t d (nat idx))"
      using True by (intro markdown_clean_merged) auto
    then show ?thesis using that True
      by (simp add: run_cell_stored[OF that(1,2)] fs_clean_store)
  next
    case False
    then have "idx < 0 \<or> int (length (doc_cells d)) \<le> idx" by auto
    then show ?thesis using that by (simp add: run_cell_range[OF that(1,2)])
  qed
  show ?thesis
  proof (cases "safe_nb_path root path")
    case (Inl e)
    then show ?thesis using fc by (simp add: run_cell_def)
  next
    case (Inr p)
    show ?thesis
    proof (cases "files fs p")
      case None
      have "fs_clean (store fs p default_document)"
        using fc by (simp add: fs_clean_store markdown_clean_default)
      moreover have "files (store fs p default_document) p = Some (Notebook default_document)"
        by (simp add: store_def)
      ultimately show ?thesis using stored[OF Inr] fc
        by (simp add: run_cell_missing[OF Inr None])
    next
      case (Some f)
      show ?thesis
      proof (cases f)
        case (Notebook d)
        then show ?thesis using stored[OF Inr _ fc] Some by simp
      next
        case Garbage
        then show ?thesis using fc Inr Some by (simp add: run_cell_def read_nb_def)
      qed
    qed
  qed
qed

lemma client_prefix:
  assumes ld: "load d = (nb, h)" and m: "m \<le> length (doc_cells d)"
      and ce: "client_execute P t \<lparr>nb_metadata = 0, nb_cells = [0..<m]\<rparr> h = (res, h1)"
  shows "res = (case session_fault P t (take m (doc_cells d)) of
                  None \<Rightarrow> Inr \<lparr>nb_metadata = 0, nb_cells = [0..<m]\<rparr> | Some e \<Rightarrow> Inl e)
    \<and> map (cell_at h1) [0..<m] = session_cells P t (take m (doc_cells d))
    \<and> (\<forall>r. m \<le> r \<longrightarrow> cell_at h1 r = cell_at h r)
    \<and> meta_at h1 0 = session_metadata P (doc_metadata d)"
proof -
  let ?nb = "\<lparr>nb_metadata = 0, nb_cells = [0..<m]\<rparr>"
  have "distinct (nb_cells ?nb)" by simp
  from client_execute_effect[OF this ce] load_take[OF ld m] load_facts(3)[OF ld]
  show ?thesis by auto
qed

lemma nb_run_all_stored:
  assumes "safe_nb_path root path = Inr p" "files fs p = Some (Notebook d)"
  shows "nb_run_all P root fs path t =
    (case session_fault P t (doc_cells d) of
       Some e \<Rightarrow> (Inl (HTTPException 500 (Notebook_execution_failed_by e)), fs)
     | None \<Rightarrow>
        (if writable fs p
         then (Inr (executed_document P t d), store fs p (executed_document P t d))
         else (Inl (HTTPException 500 (Notebook_execution_failed_by OSError)), fs)))"
proof -
  obtain nb h where ld: "load d = (nb, h)" by fastforce
  have nb: "nb = \<lparr>nb_metadata = 0, nb_cells = [0..<length (doc_cells d)]\<rparr>"
    by (rule load_facts(1)[OF ld])
  obtain res h1 where ce: "client_execute P t nb h = (res, h1)" by fastforce
  note cp = client_prefix[OF ld order_refl ce[unfolded nb]]
  have r: "res = (case session_fault P t (doc_cells d) of None \<Rightarrow> Inr nb | Some e \<Rightarrow> Inl e)"
    using cp unfolding nb by simp
  have "dump h1 nb = executed_document P t d"
    using cp by (simp add: dump_def executed_document_def nb)
  with r show ?thesis using assms ld ce
    by (auto simp: nb_run_all_def v2_read_nb_def v2_write_nb_def execute_notebook_def
        split: option.splits)
qed

lemma map_nth_upt: "m \<le> n \<Longrightarrow> map (\<lambda>i. [0..<n] ! i) [0..<m] = [0..<m]"
  by (rule nth_equalityI) auto

lemma nb_run_cell_stored:
  assumes sp: "safe_nb_path root path = Inr p" and st: "files fs p = Some (Notebook d)"
      and lo: "0 \<le> idx" and hi: "idx < int (length (doc_cells d))"
  shows "nb_run_cell P root fs path idx t =
    (case session_fault P t (take (nat idx + 1) (doc_cells d)) of
       Some e \<Rightarrow> (Inl (HTTPException 500 (Cell_execution_failed_by e)), fs)
     | None \<Rightarrow>
        (if writable fs p
         then (Inr (merged_document P t d (nat idx),
                    doc_cells (merged_document P t d (nat idx)) ! nat idx),
               store fs p (merged_document P t d (nat idx)))
         else (Inl (HTTPException 500 (Cell_execution_failed_by OSError)), fs)))"
proof -
  define i where "i = nat idx"
  define n where "n = length (doc_cells d)"
  have i: "i < n" "nat (idx + 1) = i + 1" "int i = idx" using lo hi by (auto simp: i_def n_def)
  obtain nb h where ld: "load d = (nb, h)" by fastforce
  have nb: "nb = \<lparr>nb_metadata = 0, nb_cells = [0..<n]\<rparr>"
    unfolding n_def by (rule load_facts(1)[OF ld])
  let ?partial = "\<lparr>nb_metadata = 0, nb_cells = [0..<i + 1]\<rparr>"
  have tk: "map ((!) [0..<n]) [0..<Suc i] = [0..<Suc i]" using i(1) map_nth_upt[of "Suc i" n] by simp
  obtain res h1 where ce: "client_execute P t ?partial h = (res, h1)" by fastforce
  have m: "i + 1 \<le> length (doc_cells d)" using i(1) by (simp add: n_def)
  from client_prefix[OF ld m ce]
  have e: "res = (case session_fault P t (take (i + 1) (doc_cells d)) of None \<Rightarrow> Inr ?partial | Some e \<Rightarrow> Inl e)"
    and c1: "map (cell_at h1) [0..<i + 1] = session_cells P t (take (i + 1) (doc_cells d))"
    and c2: "\<forall>r. i + 1 \<le> r \<longrightarrow> cell_at h1 r = cell_at h r"
    and c3: "meta_at h1 0 = session_metadata P (doc_metadata d)" by auto
  define h3 where "h3 = set_execution_count (set_outputs h1 i (get_outputs (cell_at h1 i))) i
      (get_execution_count (cell_at (set_outputs h1 i (get_outputs (cell_at h1 i))) i))"
  have h3c: "cell_at h3 = (cell_at h1)(i := merge_cell (cell_at h1 i))"
    by (auto simp: h3_def set_outputs_def set_execution_count_def merge_cell_def)
  have h3m: "meta_at h3 = meta_at h1"
    by (simp add: h3_def set_outputs_def set_execution_count_def)
  have c2': "\<forall>r. i + 1 \<le> r \<longrightarrow> r < n \<longrightarrow> cell_at h1 r = doc_cells d ! r"
    using c2 load_facts(2)[OF ld] by (simp add: n_def)
  have cells: "map (cell_at h3) [0..<n] = doc_cells (merged_document P t d i)"
    unfolding h3c merged_cells[OF i(1) n_def c2'] c1
    by (simp add: merged_document_def Let_def)
  have dm: "dump h3 nb = merged_document P t d i"
    using cells c3 h3m by (simp add: dump_def nb merged_document_def)
  have ci: "cell_at h3 i = doc_cells (merged_document P t d i) ! i"
  proof -
    have "map (cell_at h3) [0..<n] ! i = cell_at h3 i" using i(1) by simp
    then show ?thesis by (simp add: cells)
  qed
  have rd: "v2_read_nb fs p = (Inr (nb, h), fs)" using st ld by (simp add: v2_read_nb_def)
  have len: "length (nb_cells nb) = n" by (simp add: nb)
  have ix: "last [0..<i + 1] = i" "[0..<n] ! i = i" using i(1) by auto
  have ne: "[0..<i + 1] \<noteq> []" by simp
  show ?thesis
  proof (cases "session_fault P t (take (i + 1) (doc_cells d))")
    case None
    then have "res = Inr ?partial" using e by simp
    then show ?thesis
      unfolding nb_run_cell_def sp sum.case rd prod.case Let_def len
      using lo hi i ce dm ci ix None tk
      by (simp add: nb n_def[symmetric] i_def[symmetric] h3_def[symmetric] v2_write_nb_def
          execute_notebook_def del: upt_Suc)
  next
    case (Some x)
    then have "res = Inl x" using e by simp
    then show ?thesis
      unfolding nb_run_cell_def sp sum.case rd prod.case Let_def len
      using lo hi i ce Some tk
      by (simp add: nb n_def[symmetric] i_def[symmetric] execute_notebook_def del: upt_Suc)
  qed
qed

lemma nb_run_all_missing:
  assumes "safe_nb_path root path = Inr p" "files fs p = None"
  shows "nb_run_all P root fs path t =
    (if writable fs p then nb_run_all P root (store fs p new_notebook) path t
     else (Inl (Unhandled OSError), fs))"
  using assms by (simp add: nb_run_all_def v2_read_nb_def store_def)

lemma nb_run_cell_missing:
  assumes "safe_nb_path root path = Inr p" "files fs p = None"
  shows "nb_run_cell P root fs path idx t =
    (if writable fs p then nb_run_cell P root (store fs p new_notebook) path idx t
     else (Inl (Unhandled OSError), fs))"
  using assms by (simp add: nb_run_cell_def v2_read_nb_def store_def)

lemma nb_run_cell_range:
  assumes "safe_nb_path root path = Inr p" "files fs p = Some (Notebook d)"
      and "idx < 0 \<or> int (length (doc_cells d)) \<le> idx"
  shows "nb_run_cell P root fs path idx t = (Inl (HTTPException 400 Invalid_cell_index), fs)"
  using assms by (auto simp: nb_run_cell_def v2_read_nb_def load_def)

lemma fs_clean_nb_run_all: "fs_clean fs \<Longrightarrow> fs_clean (snd (nb_run_all P root fs path t))"
proof -
  assume fc: "fs_clean fs"
  have stored: "fs_clean (snd (nb_run_all P root fs' path t))"
    if "safe_nb_path root path = Inr p" "files fs' p = Some (Notebook d)" "fs_clean fs'" for p d fs'
  proof -
    have "markdown_clean d" using that by (auto simp: fs_clean_def)
    then show ?thesis using that
      by (simp add: nb_run_all_stored[OF that(1,2)] fs_clean_store markdown_clean_executed
          split: option.splits)
  qed
  show ?thesis
  proof (cases "safe_nb_path root path")
    case (Inl e)
    then show ?thesis using fc by (simp add: nb_run_all_def)
  next
    case (Inr p)
    show ?thesis
    proof (cases "files fs p")
      case None
      have "fs_clean (store fs p new_notebook)"
        using fc by (simp add: fs_clean_store markdown_clean_default)
      moreover have "files (store fs p new_notebook) p = Some (Notebook new_notebook)"
        by (simp add: store_def)
      ultimately show ?thesis using stored[OF Inr] fc
        by (simp add: nb_run_all_missing[OF Inr None])
    next
      case (Some f)
      show ?thesis
      proof (cases f)
        case (Notebook d)
        then show ?thesis using stored[OF Inr _ fc] Some by simp
      next
        case Garbage
        then show ?thesis using fc Inr Some by (simp add: nb_run_all_def v2_read_nb_def)
      qed
    qed
  qed
qed

lemma fs_clean_nb_run_cell: "fs_clean fs \<Longrightarrow> fs_clean (snd (nb_run_cell P root fs path idx t))"
proof -
  assume fc: "fs_clean fs"
  have stored: "fs_clean (snd (nb_run_cell P root fs' path idx t))"
    if "safe_nb_path root path = Inr p" "files fs' p = Some (Notebook d)" "fs_clean fs'" for p d fs'
  proof (cases "0 \<le> idx \<and> idx < int (length (doc_cells d))")
    case True
    have "markdown_clean d" using that by (auto simp: fs_clean_def)
    then have "markdown_clean (merged_document P t d (nat idx))"
      using True by (intro markdown_clean_merged) auto
    then show ?thesis using that True
      by (simp add: nb_run_cell_stored[OF that(1,2)] fs_clean_store split: option.splits)
  next
    case False
    then have "idx < 0 \<or> int (length (doc_cells d)) \<le> idx" by auto
    then show ?thesis using that by (simp add: nb_run_cell_range[OF that(1,2)])
  qed
  show ?thesis
  proof (cases "safe_nb_path root path")
    case (Inl e)
    then show ?thesis using fc by (simp add: nb_run_cell_def)
  next
    case (Inr p)
    show ?thesis
    proof (cases "files fs p")
      case None
      have "fs_clean (store fs p new_notebook)"
        using fc by (simp add: fs_clean_store markdown_clean_default)
      moreover have "files (store fs p new_notebook) p = Some (Notebook new_notebook)"
        by (simp add: store_def)
      ultimately show ?thesis using stored[OF Inr] fc
        by (simp add: nb_run_cell_missing[OF Inr None])
    next
      case (Some f)
      show ?thesis
      proof (cases f)
        case (Notebook d)
        then show ?thesis using stored[OF Inr _ fc] Some by simp
      next
        case Garbage
        then show ?thesis using fc Inr Some by (simp add: nb_run_cell_def v2_read_nb_def)
      qed
    qed
  qed
qed



lemma run_cells_take:
  "take m (snd (run_cells P t n k cs)) = snd (run_cells P t n k (take m cs))"
proof (induction cs arbitrary: m n k)
  case Nil
  then show ?case by simp
next
  case (Cons c cs)
  show ?case
  proof (cases m)
    case 0
    then show ?thesis by simp
  next
    case (Suc m')
    then show ?thesis using Cons.IH[of m']
      by (auto simp: split_beta split: outcome.splits)
  qed
qed

lemma session_cells_take:
  "take m (session_cells P t cs) = session_cells P t (take m cs)"
  by (auto simp: session_cells_def run_cells_take split: sum.splits)


lemma executed_document_no_kernel:
  "start_kernel P = Inl e \<Longrightarrow> executed_document P t d = d"
  by (simp add: executed_document_def session_cells_def session_metadata_def)


lemma sample_path: "safe_nb_path [''srv''] ''a'' = Inr [''srv'', ''a.ipynb'']"
  by (simp add: path_eval)

lemma sample_stored: "files sample_fs [''srv'', ''a.ipynb''] = Some (Notebook sample_document)"
  by (simp add: sample_fs_def)

lemma sample_writable: "writable sample_fs p"
  by (simp add: sample_fs_def)

lemmas sample_eval = sample_document_def code_cell_def new_markdown_cell_def stream_output_def
  echo_provider_def faulting_provider_def no_kernel_def executed_document_def merged_document_def
  slowing_provider_def await_reply_def
  session_cells_def session_metadata_def session_fault_def executes_def strip_def isspace_def
  merge_cell_def get_outputs_def get_execution_count_def

lemma sample_clean: "fs_clean sample_fs"
  by (auto simp: fs_clean_def sample_fs_def markdown_clean_def sample_document_def code_cell_def
      new_markdown_cell_def get_outputs_def get_execution_count_def split: if_splits)


section \<open>The claims\<close>

text \<open>
  C1. The claim: \<open>run_cell\<close> at index \<open>i\<close> leaves every cell of the stored document other
  than cell \<open>i\<close> as it was, with the outputs and execution count stored for the cells before
  \<open>i\<close>. The code does not: the partial notebook lists the cell objects of the notebook
  that is written back, the session executes them in place, and the cells before \<open>i\<close> are
  stored with the outputs and counts of the replay. On the example document, running
  cell 1 replaces the stored output and the count 7 of cell 0 by the new output and the
  count 1, in \<open>run_cell\<close> of backend/notebooks.py and in \<open>nb_run_cell\<close> of v2main.py; the
  cells after cell 1 are as they were.
\<close>

theorem C1_run_cell_overwrites_earlier_cell:
  "fst (run_cell echo_provider [''srv''] sample_fs ''a'' 1 120) =
     Inr (\<lparr>doc_metadata = [(''language_info'', ''python'')],
           doc_cells =
             [code_cell ''x = 1'' [stream_output ''x = 1''] (Some 1),
              code_cell ''print(x)'' [stream_output ''print(x)''] (Some 2),
              new_markdown_cell ''# notes'',
              code_cell ''y'' [stream_output ''old''] (Some 9)]\<rparr>,
          ''print(x)'', [stream_output ''print(x)''], Some 2)
   \<and> files (snd (run_cell echo_provider [''srv''] sample_fs ''a'' 1 120)) [''srv'', ''a.ipynb''] =
     Some (Notebook
       \<lparr>doc_metadata = [(''language_info'', ''python'')],
        doc_cells =
          [code_cell ''x = 1'' [stream_output ''x = 1''] (Some 1),
           code_cell ''print(x)'' [stream_output ''print(x)''] (Some 2),
           new_markdown_cell ''# notes'',
           code_cell ''y'' [stream_output ''old''] (Some 9)]\<rparr>)
   \<and> files (snd (nb_run_cell echo_provider [''srv''] sample_fs ''a'' 1 120)) [''srv'', ''a.ipynb''] =
     Some (Notebook
       \<lparr>doc_metadata = [(''language_info'', ''python'')],
        doc_cells =
          [code_cell ''x = 1'' [stream_output ''x = 1''] (Some 1),
           code_cell ''print(x)'' [stream_output ''print(x)''] (Some 2),
           new_markdown_cell ''# notes'',
           code_cell ''y'' [stream_output ''old''] (Some 9)]\<rparr>)
   \<and> doc_cells sample_document ! 0 = code_cell ''x = 1'' [stream_output ''old''] (Some 7)
   \<and> code_cell ''x = 1'' [stream_output ''x = 1''] (Some 1)
       \<noteq> code_cell ''x = 1'' [stream_output ''old''] (Some 7)"
proof -
  let ?d = "\<lparr>doc_metadata = [(''language_info'', ''python'')],
        doc_cells =
          [code_cell ''x = 1'' [stream_output ''x = 1''] (Some 1),
           code_cell ''print(x)'' [stream_output ''print(x)''] (Some 2),
           new_markdown_cell ''# notes'',
           code_cell ''y'' [stream_output ''old''] (Some 9)]\<rparr>"
  have r: "(0::int) \<le> 1" "(1::int) < int (length (doc_cells sample_document))"
    by (simp_all add: sample_document_def)
  have md: "merged_document echo_provider 120 sample_document (nat 1) = ?d"
    by (simp add: sample_eval)
  have c: "doc_cells ?d ! nat 1 = code_cell ''print(x)'' [stream_output ''print(x)''] (Some 2)"
    by simp
  have sf: "session_fault echo_provider 120 (take (nat 1 + 1) (doc_cells sample_document)) = None"
    by (simp add: sample_eval)
  have v1: "run_cell echo_provider [''srv''] sample_fs ''a'' 1 120 =
      (Inr (?d, ''print(x)'', [stream_output ''print(x)''], Some 2),
       store sample_fs [''srv'', ''a.ipynb''] ?d)"
    unfolding run_cell_stored[OF sample_path sample_stored r, of echo_provider 120] md c
    by (simp add: sample_writable code_cell_def get_outputs_def get_execution_count_def)
  have v2: "snd (nb_run_cell echo_provider [''srv''] sample_fs ''a'' 1 120) =
      store sample_fs [''srv'', ''a.ipynb''] ?d"
    unfolding nb_run_cell_stored[OF sample_path sample_stored r, of echo_provider 120] md sf
    by (simp add: sample_writable)
  have old: "doc_cells sample_document ! 0 = code_cell ''x = 1'' [stream_output ''old''] (Some 7)"
    by (simp add: sample_document_def)
  have ne: "code_cell ''x = 1'' [stream_output ''x = 1''] (Some 1)
       \<noteq> code_cell ''x = 1'' [stream_output ''old''] (Some 7)"
    by (simp add: code_cell_def stream_output_def)
  show ?thesis
    unfolding v1 v2 using old ne by (simp add: store_def)
qed




text \<open>
  C3, as stated, fails: when the kernel dies on the second code cell of the example
  document, \<open>run_all\<close> of backend/notebooks.py answers with a document that differs from
  the original (cell 0 holds its new output); and when the session does not start,
  \<open>nb_run_all\<close> of v2main.py hands the fault to the caller as the status 500.
\<close>

theorem C3_fault_counterexample:
  "fst (run_all (faulting_provider DeadKernelError) [''srv''] sample_fs ''a'' 120) =
     Inr \<lparr>doc_metadata = [(''language_info'', ''python'')],
          doc_cells =
            [code_cell ''x = 1'' [stream_output ''x = 1''] (Some 1),
             code_cell ''print(x)'' [] (Some 2),
             new_markdown_cell ''# notes'',
             code_cell ''y'' [stream_output ''old''] (Some 9)]\<rparr>
   \<and> fst (run_all (faulting_provider DeadKernelError) [''srv''] sample_fs ''a'' 120)
       \<noteq> Inr sample_document
   \<and> nb_run_all no_kernel [''srv''] sample_fs ''a'' 120 =
     (Inl (HTTPException 500 (Notebook_execution_failed_by KernelStartupFailure)), sample_fs)"
  using run_all_stored[OF sample_path sample_stored, of "faulting_provider DeadKernelError" 120]
    nb_run_all_stored[OF sample_path sample_stored, of no_kernel 120]
  by (simp add: sample_writable) (simp add: sample_eval)


text \<open>
  C3 (amended): for a stored document at a writable path, \<open>run_all\<close> of
  backend/notebooks.py never hands a fault of the session to the caller: it answers with
  the document as the session left it and stores it, and \<open>_execute\<close> returns the notebook
  object it was given. If the session cannot be started, that document is the original
  one, unmodified; after a fault during the run, the cells completed before the fault hold
  their new outputs. \<open>nb_run_all\<close> of v2main.py turns every fault of the session into the
  status 500 and leaves the file system as it was.
\<close>

theorem C3_fault_absorbed:
  assumes "safe_nb_path root path = Inr p" "files fs p = Some (Notebook d)" "writable fs p"
  shows "run_all P root fs path t =
           (Inr (executed_document P t d), store fs p (executed_document P t d))
       \<and> fst (execute P nb t h) = nb
       \<and> (start_kernel P = Inl e \<longrightarrow>
            executed_document P t d = d \<and> execute P nb t h = (nb, h))
       \<and> (session_fault P t (doc_cells d) = Some e \<longrightarrow>
            nb_run_all P root fs path t =
              (Inl (HTTPException 500 (Notebook_execution_failed_by e)), fs))"
proof (intro conjI impI)
  show "run_all P root fs path t =
           (Inr (executed_document P t d), store fs p (executed_document P t d))"
    using run_all_stored[OF assms(1,2), of P t] assms(3) by simp
  show "fst (execute P nb t h) = nb" by (rule execute_same_notebook)
  show "executed_document P t d = d" if "start_kernel P = Inl e"
    using that by (rule executed_document_no_kernel)
  show "execute P nb t h = (nb, h)" if "start_kernel P = Inl e"
    using that by (simp add: execute_def client_execute_def)
  show "nb_run_all P root fs path t =
      (Inl (HTTPException 500 (Notebook_execution_failed_by e)), fs)"
    if "session_fault P t (doc_cells d) = Some e"
    using that nb_run_all_stored[OF assms(1,2), of P t] by simp
qed


text \<open>
  The session that does not start, on the example document.
\<close>

theorem C3_fault_absorbed_witness:
  "run_all no_kernel [''srv''] sample_fs ''a'' 120 =
     (Inr sample_document, store sample_fs [''srv'', ''a.ipynb''] sample_document)
   \<and> execute no_kernel (fst (load sample_document)) 120 (snd (load sample_document)) =
       load sample_document
   \<and> nb_run_all no_kernel [''srv''] sample_fs ''a'' 120 =
       (Inl (HTTPException 500 (Notebook_execution_failed_by KernelStartupFailure)), sample_fs)"
proof -
  have s: "start_kernel no_kernel = Inl KernelStartupFailure" by (simp add: no_kernel_def)
  have f: "session_fault no_kernel 120 (doc_cells sample_document) = Some KernelStartupFailure"
    by (simp add: session_fault_def no_kernel_def)
  show ?thesis
    using C3_fault_absorbed[OF sample_path sample_stored sample_writable,
        of no_kernel 120 "fst (load sample_document)" "snd (load sample_document)" KernelStartupFailure]
      s f
    by simp
qed

text \<open>
  C4. For every stored document, every valid index \<open>i\<close> and every session provider (a
  function, so deterministic), the outputs and the execution count that \<open>run_cell\<close> at
  \<open>i\<close> answers with for cell \<open>i\<close>, and stores for it, are those that \<open>run_all\<close> produces
  for cell \<open>i\<close> on the document of the first \<open>i + 1\<close> cells, and also those that \<open>run_all\<close>
  produces for cell \<open>i\<close> on the whole document. In v2main.py, where a fault of the session
  fails both routes, the same holds of \<open>nb_run_cell\<close> and \<open>nb_run_all\<close> on the first
  \<open>i + 1\<close> cells when the session runs them without a fault.
\<close>

theorem C4_replay_equals_prefix_run:
  assumes "safe_nb_path root path = Inr p" "files fs p = Some (Notebook d)" "writable fs p"
      and "0 \<le> idx" "idx < int (length (doc_cells d))"
      and "safe_nb_path root path' = Inr q" "writable fs' q"
      and "files fs' q = Some (Notebook (d\<lparr>doc_cells := take (nat idx + 1) (doc_cells d)\<rparr>))"
  shows "(\<exists>doc src outs n fs1 prefix_doc fs2 whole_doc fs3.
           run_cell P root fs path idx t = (Inr (doc, src, outs, n), fs1)
         \<and> run_all P root fs' path' t = (Inr prefix_doc, fs2)
         \<and> run_all P root fs path t = (Inr whole_doc, fs3)
         \<and> outs = get_outputs (doc_cells prefix_doc ! nat idx)
         \<and> n = get_execution_count (doc_cells prefix_doc ! nat idx)
         \<and> outs = get_outputs (doc_cells whole_doc ! nat idx)
         \<and> n = get_execution_count (doc_cells whole_doc ! nat idx)
         \<and> outs = get_outputs (doc_cells doc ! nat idx)
         \<and> n = get_execution_count (doc_cells doc ! nat idx))
       \<and> (session_fault P t (take (nat idx + 1) (doc_cells d)) = None \<longrightarrow>
            (\<exists>doc c fs1 prefix_doc fs2.
               nb_run_cell P root fs path idx t = (Inr (doc, c), fs1)
             \<and> nb_run_all P root fs' path' t = (Inr prefix_doc, fs2)
             \<and> get_outputs c = get_outputs (doc_cells prefix_doc ! nat idx)
             \<and> get_execution_count c = get_execution_count (doc_cells prefix_doc ! nat idx)))"
proof -
  define i where "i = nat idx"
  define xs where "xs = session_cells P t (take (i + 1) (doc_cells d))"
  have i: "i < length (doc_cells d)" using assms(4,5) by (simp add: i_def)
  have lx: "length xs = i + 1" using i by (simp add: xs_def session_cells_length)
  have m: "doc_cells (merged_document P t d i) ! i = merge_cell (xs ! i)"
    using i by (simp add: merged_document_def Let_def xs_def nth_append session_cells_length)
  have pre: "doc_cells (executed_document P t (d\<lparr>doc_cells := take (i + 1) (doc_cells d)\<rparr>)) ! i = xs ! i"
    by (simp add: executed_document_def xs_def)
  have "take (i + 1) (session_cells P t (doc_cells d)) = xs"
    by (simp add: xs_def session_cells_take)
  then have "take (i + 1) (session_cells P t (doc_cells d)) ! i = xs ! i" by simp
  then have whole: "doc_cells (executed_document P t d) ! i = xs ! i"
    by (simp add: executed_document_def)
  have main: "\<exists>doc src outs n fs1 prefix_doc fs2 whole_doc fs3.
           run_cell P root fs path idx t = (Inr (doc, src, outs, n), fs1)
         \<and> run_all P root fs' path' t = (Inr prefix_doc, fs2)
         \<and> run_all P root fs path t = (Inr whole_doc, fs3)
         \<and> outs = get_outputs (doc_cells prefix_doc ! nat idx)
         \<and> n = get_execution_count (doc_cells prefix_doc ! nat idx)
         \<and> outs = get_outputs (doc_cells whole_doc ! nat idx)
         \<and> n = get_execution_count (doc_cells whole_doc ! nat idx)
         \<and> outs = get_outputs (doc_cells doc ! nat idx)
         \<and> n = get_execution_count (doc_cells doc ! nat idx)"
    using run_cell_stored[OF assms(1,2,4,5), of P t] run_all_stored[OF assms(6,8), of P t]
      run_all_stored[OF assms(1,2), of P t] assms(3,7) m pre whole
    by (simp add: i_def[symmetric])
  have v2: "\<exists>doc c fs1 prefix_doc fs2.
               nb_run_cell P root fs path idx t = (Inr (doc, c), fs1)
             \<and> nb_run_all P root fs' path' t = (Inr prefix_doc, fs2)
             \<and> get_outputs c = get_outputs (doc_cells prefix_doc ! nat idx)
             \<and> get_execution_count c = get_execution_count (doc_cells prefix_doc ! nat idx)"
    if "session_fault P t (take (nat idx + 1) (doc_cells d)) = None"
    using that nb_run_cell_stored[OF assms(1,2,4,5), of P t] nb_run_all_stored[OF assms(6,8), of P t]
      assms(3,7) m pre
    by (simp add: i_def[symmetric])
  show ?thesis using main v2 by blast
qed


text \<open>
  Cell 1 of the example document, with the echoing session.
\<close>

theorem C4_replay_equals_prefix_run_witness:
  "(\<exists>doc src outs n fs1 prefix_doc fs2 whole_doc fs3.
           run_cell echo_provider [''srv''] sample_fs ''a'' 1 120 = (Inr (doc, src, outs, n), fs1)
         \<and> run_all echo_provider [''srv''] prefix_fs ''b'' 120 = (Inr prefix_doc, fs2)
         \<and> run_all echo_provider [''srv''] sample_fs ''a'' 120 = (Inr whole_doc, fs3)
         \<and> outs = get_outputs (doc_cells prefix_doc ! nat 1)
         \<and> n = get_execution_count (doc_cells prefix_doc ! nat 1)
         \<and> outs = get_outputs (doc_cells whole_doc ! nat 1)
         \<and> n = get_execution_count (doc_cells whole_doc ! nat 1)
         \<and> outs = get_outputs (doc_cells doc ! nat 1)
         \<and> n = get_execution_count (doc_cells doc ! nat 1))
   \<and> (\<exists>doc c fs1 prefix_doc fs2.
           nb_run_cell echo_provider [''srv''] sample_fs ''a'' 1 120 = (Inr (doc, c), fs1)
         \<and> nb_run_all echo_provider [''srv''] prefix_fs ''b'' 120 = (Inr prefix_doc, fs2)
         \<and> get_outputs c = get_outputs (doc_cells prefix_doc ! nat 1)
         \<and> get_execution_count c = get_execution_count (doc_cells prefix_doc ! nat 1))"
proof -
  have q: "safe_nb_path [''srv''] ''b'' = Inr [''srv'', ''b.ipynb'']" by (simp add: path_eval)
  have w: "writable prefix_fs [''srv'', ''b.ipynb'']" by (simp add: prefix_fs_def)
  have r: "(0::int) \<le> 1" "(1::int) < int (length (doc_cells sample_document))"
    by (simp_all add: sample_document_def)
  have f: "files prefix_fs [''srv'', ''b.ipynb''] =
      Some (Notebook (sample_document\<lparr>doc_cells := take (nat 1 + 1) (doc_cells sample_document)\<rparr>))"
    by (simp add: prefix_fs_def numeral_2_eq_2)
  have n: "session_fault echo_provider 120 (take (nat 1 + 1) (doc_cells sample_document)) = None"
    by (simp add: sample_eval)
  show ?thesis
    using C4_replay_equals_prefix_run[OF sample_path sample_stored sample_writable r q w f,
        of echo_provider 120] n
    by blast
qed

text \<open>
  C5. \<open>_safe_nb_path\<close> succeeds only with the resolved path, and only when that path is
  the root or has the root as a strict prefix of its names. When the path resolves and the
  resolved path escapes the root, it fails with the status 400 (invalid notebook path).
  (A path that does not resolve, because a name holds the character 0, fails with the
  exception of \<open>resolve()\<close>.) Whenever \<open>_safe_nb_path\<close> fails, every route of both files
  answers with its error and leaves the file system as it was.
\<close>

theorem C5_escaping_path_rejected:
  "(safe_nb_path root rel = Inr p \<longrightarrow>
      resolve (joinpath root (normalise rel)) = Inr p \<and> (p = root \<or> strict_prefix root p))
   \<and> (resolve (joinpath root (normalise rel)) = Inr q \<and> \<not> (q = root \<or> strict_prefix root q) \<longrightarrow>
        safe_nb_path root rel = Inl (HTTPException 400 Invalid_notebook_path))
   \<and> (resolve (joinpath root (normalise rel)) = Inl x \<longrightarrow>
        safe_nb_path root rel = Inl (Unhandled x))
   \<and> (safe_nb_path root rel = Inl e \<longrightarrow>
        get_notebook root fs rel = (Inl e, fs)
      \<and> save_notebook root fs rel d = (Inl e, fs)
      \<and> run_all P root fs rel t = (Inl e, fs)
      \<and> run_cell P root fs rel idx t = (Inl e, fs)
      \<and> nb_get root fs rel = (Inl e, fs)
      \<and> nb_save root fs rel d = (Inl e, fs)
      \<and> nb_run_all P root fs rel t = (Inl e, fs)
      \<and> nb_run_cell P root fs rel idx t = (Inl e, fs))"
proof (intro conjI impI)
  assume "safe_nb_path root rel = Inr p"
  then show "resolve (joinpath root (normalise rel)) = Inr p" "p = root \<or> strict_prefix root p"
    by (auto simp: safe_nb_path_iff split: sum.splits if_splits)
next
  assume "resolve (joinpath root (normalise rel)) = Inr q \<and> \<not> (q = root \<or> strict_prefix root q)"
  then show "safe_nb_path root rel = Inl (HTTPException 400 Invalid_notebook_path)"
    by (auto simp: safe_nb_path_iff)
next
  assume "resolve (joinpath root (normalise rel)) = Inl x"
  then show "safe_nb_path root rel = Inl (Unhandled x)"
    by (simp add: safe_nb_path_iff)
next
  assume e: "safe_nb_path root rel = Inl e"
  show "get_notebook root fs rel = (Inl e, fs)"
    by (simp add: get_notebook_def e)
  show "save_notebook root fs rel d = (Inl e, fs)"
    by (simp add: save_notebook_def e)
  show "run_all P root fs rel t = (Inl e, fs)"
    by (simp add: run_all_def e)
  show "run_cell P root fs rel idx t = (Inl e, fs)"
    by (simp add: run_cell_def e)
  show "nb_get root fs rel = (Inl e, fs)"
    by (simp add: nb_get_def e)
  show "nb_save root fs rel d = (Inl e, fs)"
    by (simp add: nb_save_def e)
  show "nb_run_all P root fs rel t = (Inl e, fs)"
    by (simp add: nb_run_all_def e)
  show "nb_run_cell P root fs rel idx t = (Inl e, fs)"
    by (simp add: nb_run_cell_def e)
qed

text \<open>
  The path \<open>../../etc/passwd\<close> under the root \<open>/srv/notebooks\<close>, the accepted path \<open>a\<close>
  under \<open>/srv\<close>, and a path with the character 0 in a name.
\<close>

theorem C5_escaping_path_rejected_witness:
  "resolve (joinpath [''srv'', ''notebooks''] (normalise ''../../etc/passwd'')) =
       Inr [''etc'', ''passwd.ipynb'']
   \<and> safe_nb_path [''srv'', ''notebooks''] ''../../etc/passwd'' =
       Inl (HTTPException 400 Invalid_notebook_path)
   \<and> get_notebook [''srv'', ''notebooks''] sample_fs ''../../etc/passwd'' =
       (Inl (HTTPException 400 Invalid_notebook_path), sample_fs)
   \<and> save_notebook [''srv'', ''notebooks''] sample_fs ''../../etc/passwd'' sample_document =
       (Inl (HTTPException 400 Invalid_notebook_path), sample_fs)
   \<and> run_all echo_provider [''srv'', ''notebooks''] sample_fs ''../../etc/passwd'' 120 =
       (Inl (HTTPException 400 Invalid_notebook_path), sample_fs)
   \<and> run_cell echo_provider [''srv'', ''notebooks''] sample_fs ''../../etc/passwd'' 0 120 =
       (Inl (HTTPException 400 Invalid_notebook_path), sample_fs)
   \<and> nb_get [''srv'', ''notebooks''] sample_fs ''../../etc/passwd'' =
       (Inl (HTTPException 400 Invalid_notebook_path), sample_fs)
   \<and> nb_save [''srv'', ''notebooks''] sample_fs ''../../etc/passwd'' sample_document =
       (Inl (HTTPException 400 Invalid_notebook_path), sample_fs)
   \<and> nb_run_all echo_provider [''srv'', ''notebooks''] sample_fs ''../../etc/passwd'' 120 =
       (Inl (HTTPException 400 Invalid_notebook_path), sample_fs)
   \<and> nb_run_cell echo_provider [''srv'', ''notebooks''] sample_fs ''../../etc/passwd'' 0 120 =
       (Inl (HTTPException 400 Invalid_notebook_path), sample_fs)
   \<and> safe_nb_path [''srv''] ''a'' = Inr [''srv'', ''a.ipynb'']
   \<and> strict_prefix [''srv''] [''srv'', ''a.ipynb'']
   \<and> safe_nb_path [''srv''] [CHR ''a'', CHR 0x00] = Inl (Unhandled ValueError)
   \<and> get_notebook [''srv''] sample_fs [CHR ''a'', CHR 0x00] = (Inl (Unhandled ValueError), sample_fs)"
proof -
  let ?root = "[''srv'', ''notebooks'']"
  have r: "resolve (joinpath ?root (normalise ''../../etc/passwd'')) = Inr [''etc'', ''passwd.ipynb'']"
    by (simp add: path_eval)
  have n: "\<not> ([''etc'', ''passwd.ipynb''] = ?root \<or> strict_prefix ?root [''etc'', ''passwd.ipynb''])"
    by simp
  note esc = C5_escaping_path_rejected[of ?root "''../../etc/passwd''" "[]" "[''etc'', ''passwd.ipynb'']"
        ValueError "HTTPException 400 Invalid_notebook_path" sample_fs sample_document echo_provider
        120 0]
  have e: "safe_nb_path ?root ''../../etc/passwd'' = Inl (HTTPException 400 Invalid_notebook_path)"
    using esc r n by blast
  have routes: "get_notebook ?root sample_fs ''../../etc/passwd'' =
       (Inl (HTTPException 400 Invalid_notebook_path), sample_fs)
   \<and> save_notebook ?root sample_fs ''../../etc/passwd'' sample_document =
       (Inl (HTTPException 400 Invalid_notebook_path), sample_fs)
   \<and> run_all echo_provider ?root sample_fs ''../../etc/passwd'' 120 =
       (Inl (HTTPException 400 Invalid_notebook_path), sample_fs)
   \<and> run_cell echo_provider ?root sample_fs ''../../etc/passwd'' 0 120 =
       (Inl (HTTPException 400 Invalid_notebook_path), sample_fs)
   \<and> nb_get ?root sample_fs ''../../etc/passwd'' =
       (Inl (HTTPException 400 Invalid_notebook_path), sample_fs)
   \<and> nb_save ?root sample_fs ''../../etc/passwd'' sample_document =
       (Inl (HTTPException 400 Invalid_notebook_path), sample_fs)
   \<and> nb_run_all echo_provider ?root sample_fs ''../../etc/passwd'' 120 =
       (Inl (HTTPException 400 Invalid_notebook_path), sample_fs)
   \<and> nb_run_cell echo_provider ?root sample_fs ''../../etc/passwd'' 0 120 =
       (Inl (HTTPException 400 Invalid_notebook_path), sample_fs)"
    using esc e by blast
  have "[''srv'', ''a.ipynb''] = [''srv''] \<or> strict_prefix [''srv''] [''srv'', ''a.ipynb'']"
    using C5_escaping_path_rejected[of "[''srv'']" "''a''" "[''srv'', ''a.ipynb'']" "[]"
        ValueError "HTTPException 400 Invalid_notebook_path" sample_fs sample_document echo_provider
        120 0] sample_path
    by blast
  then have first: "strict_prefix [''srv''] [''srv'', ''a.ipynb'']" by simp
  have z: "resolve (joinpath [''srv''] (normalise [CHR ''a'', CHR 0x00])) = Inl ValueError"
    by (simp add: path_eval)
  note nul = C5_escaping_path_rejected[of "[''srv'']" "[CHR ''a'', CHR 0x00]" "[]" "[]"
        ValueError "Unhandled ValueError" sample_fs sample_document echo_provider 120 0]
  have z1: "safe_nb_path [''srv''] [CHR ''a'', CHR 0x00] = Inl (Unhandled ValueError)"
    using nul z by blast
  have z2: "get_notebook [''srv''] sample_fs [CHR ''a'', CHR 0x00] = (Inl (Unhandled ValueError), sample_fs)"
    using nul z1 by blast
  show ?thesis
    using r e routes sample_path first z1 z2 by blast
qed

text \<open>
  C6, as stated, fails: \<open>_safe_nb_path\<close> takes leading slashes off its argument, so the
  resolved path \<open>/srv/a.ipynb\<close>, resolved again, is \<open>/srv/srv/a.ipynb\<close>. The form of a
  resolved path relative to the root need not resolve to it either when it begins with
  white space, which \<open>strip\<close> removes.
\<close>

theorem C6_resolved_path_counterexample:
  "safe_nb_path [''srv''] ''a'' = Inr [''srv'', ''a.ipynb'']
   \<and> path_str [''srv'', ''a.ipynb''] = ''/srv/a.ipynb''
   \<and> safe_nb_path [''srv''] (path_str [''srv'', ''a.ipynb'']) = Inr [''srv'', ''srv'', ''a.ipynb'']
   \<and> safe_nb_path [''srv''] ''x/../ y'' = Inr [''srv'', '' y.ipynb'']
   \<and> relative_to [''srv'', '' y.ipynb''] [''srv''] = '' y.ipynb''
   \<and> safe_nb_path [''srv''] (relative_to [''srv'', '' y.ipynb''] [''srv'']) = Inr [''srv'', ''y.ipynb'']"
  by (simp add: path_eval)


text \<open>
  C6 (amended): for a root without \<open>..\<close> among its names and every relative path that
  \<open>_safe_nb_path\<close> accepts with a result \<open>p\<close> other than the root, applying \<open>_safe_nb_path\<close>
  to the form of \<open>p\<close> relative to the root (what \<open>nb_get\<close> and \<open>nb_save\<close> answer with)
  yields \<open>p\<close> again, provided that form does not begin with white space.
\<close>

theorem C6_relative_form_resolves_to_itself:
  assumes "''..'' \<notin> set root"
      and "safe_nb_path root rel = Inr p"
      and "p \<noteq> root"
      and "\<not> isspace (hd (relative_to p root))"
  shows "safe_nb_path root (relative_to p root) = Inr p"
  using assms by (rule safe_nb_path_relative)


text \<open>
  The relative path \<open>sub/../a\<close> under the root \<open>/srv\<close>.
\<close>

theorem C6_relative_form_resolves_to_itself_witness:
  "safe_nb_path [''srv''] ''sub/../a'' = Inr [''srv'', ''a.ipynb'']
   \<and> relative_to [''srv'', ''a.ipynb''] [''srv''] = ''a.ipynb''
   \<and> safe_nb_path [''srv''] ''a.ipynb'' = Inr [''srv'', ''a.ipynb'']"
proof -
  have a: "''..'' \<notin> set [''srv'']" by simp
  have b: "safe_nb_path [''srv''] ''sub/../a'' = Inr [''srv'', ''a.ipynb'']" by (simp add: path_eval)
  have c: "[''srv'', ''a.ipynb''] \<noteq> [''srv'']" by simp
  have r: "relative_to [''srv'', ''a.ipynb''] [''srv''] = ''a.ipynb''" by (simp add: relative_to_def)
  have d: "\<not> isspace (hd (relative_to [''srv'', ''a.ipynb''] [''srv'']))"
    unfolding r by (simp add: isspace_def)
  show ?thesis
    using C6_relative_form_resolves_to_itself[OF a b c d] b r by simp
qed

text \<open>
  C7. For every stored document and every index below 0 or not below the number of its
  cells, \<open>run_cell\<close> (and \<open>nb_run_cell\<close>) fails with the status 400 (invalid cell index) and
  the file system after the call is the one before it.
\<close>

theorem C7_invalid_index:
  assumes "safe_nb_path root path = Inr p" "files fs p = Some (Notebook d)"
      and "idx < 0 \<or> int (length (doc_cells d)) \<le> idx"
  shows "run_cell P root fs path idx t =
           (Inl (HTTPException 400 (Invalid_cell_index_of idx (length (doc_cells d)))), fs)
       \<and> nb_run_cell P root fs path idx t = (Inl (HTTPException 400 Invalid_cell_index), fs)"
  using run_cell_range[OF assms, of P t] nb_run_cell_range[OF assms, of P t] by simp


text \<open>
  The indices 4 (the number of cells) and -1 on the example document.
\<close>

theorem C7_invalid_index_witness:
  "run_cell echo_provider [''srv''] sample_fs ''a'' 4 120 =
     (Inl (HTTPException 400 (Invalid_cell_index_of 4 4)), sample_fs)
   \<and> nb_run_cell echo_provider [''srv''] sample_fs ''a'' 4 120 =
     (Inl (HTTPException 400 Invalid_cell_index), sample_fs)
   \<and> run_cell echo_provider [''srv''] sample_fs ''a'' (- 1) 120 =
     (Inl (HTTPException 400 (Invalid_cell_index_of (- 1) 4)), sample_fs)
   \<and> nb_run_cell echo_provider [''srv''] sample_fs ''a'' (- 1) 120 =
     (Inl (HTTPException 400 Invalid_cell_index), sample_fs)"
proof -
  have len: "length (doc_cells sample_document) = 4" by (simp add: sample_document_def)
  have a: "(4::int) < 0 \<or> int (length (doc_cells sample_document)) \<le> 4" by (simp add: len)
  have b: "(- 1::int) < 0 \<or> int (length (doc_cells sample_document)) \<le> - 1" by simp
  show ?thesis
    using C7_invalid_index[OF sample_path sample_stored a, of echo_provider 120]
      C7_invalid_index[OF sample_path sample_stored b, of echo_provider 120]
    by (simp add: len)
qed


text \<open>
  C9. If no markdown cell of a stored document has outputs or an execution count, then
  the same holds after \<open>run_all\<close> and after \<open>run_cell\<close> at every index, in both files: the
  session passes markdown cells through, and \<open>run_cell\<close> at a markdown cell gives it the
  empty list of outputs and the execution count \<open>None\<close> that it reads from that cell.
\<close>

theorem C9_markdown_cells_stay_clean:
  assumes "fs_clean fs"
  shows "fs_clean (snd (run_all P root fs path t))
       \<and> fs_clean (snd (run_cell P root fs path idx t))
       \<and> fs_clean (snd (nb_run_all P root fs path t))
       \<and> fs_clean (snd (nb_run_cell P root fs path idx t))"
  using assms
  by (simp add: fs_clean_run_all fs_clean_run_cell fs_clean_nb_run_all fs_clean_nb_run_cell)


text \<open>
  The example file system, and \<open>run_cell\<close> at the markdown cell of the example document.
\<close>

theorem C9_markdown_cells_stay_clean_witness:
  "fs_clean sample_fs
   \<and> fs_clean (snd (run_all echo_provider [''srv''] sample_fs ''a'' 120))
   \<and> fs_clean (snd (run_cell echo_provider [''srv''] sample_fs ''a'' 2 120))
   \<and> fs_clean (snd (nb_run_all echo_provider [''srv''] sample_fs ''a'' 120))
   \<and> fs_clean (snd (nb_run_cell echo_provider [''srv''] sample_fs ''a'' 2 120))
   \<and> fst (run_cell echo_provider [''srv''] sample_fs ''a'' 2 120) =
       Inr (\<lparr>doc_metadata = [(''language_info'', ''python'')],
             doc_cells =
               [code_cell ''x = 1'' [stream_output ''x = 1''] (Some 1),
                code_cell ''print(x)'' [stream_output ''print(x)''] (Some 2),
                (new_markdown_cell ''# notes'')\<lparr>outputs := Present [], execution_count := Present None\<rparr>,
                code_cell ''y'' [stream_output ''old''] (Some 9)]\<rparr>,
            ''# notes'', [], None)"
  using C9_markdown_cells_stay_clean[OF sample_clean, of echo_provider "[''srv'']" "''a''" 120 2]
    run_cell_stored[OF sample_path sample_stored, of 2 echo_provider 120]
  by (simp add: sample_clean sample_writable) (simp add: sample_eval)


text \<open>
  C10. \<open>run_cell\<close> never fails with the status 500 of its last branch (cell execution
  failed): \<open>_execute\<close> returns the notebook object it was given, on its success path and
  on its fault path, hence as many cells as it was given; and for an index that passes the
  bounds check the partial notebook has exactly \<open>cell_index + 1\<close> cells.
\<close>

theorem C10_fallback_unreachable:
  "fst (run_cell P root fs path idx t) \<noteq> Inl (HTTPException 500 Cell_execution_failed)
   \<and> length (nb_cells (fst (execute P nb t h))) = length (nb_cells nb)
   \<and> (0 \<le> idx \<and> idx < int (length cs) \<longrightarrow> length (take (nat (idx + 1)) cs) = nat idx + 1)"
proof (intro conjI)
  show "length (nb_cells (fst (execute P nb t h))) = length (nb_cells nb)"
    by (simp add: execute_same_notebook)
  show "0 \<le> idx \<and> idx < int (length cs) \<longrightarrow> length (take (nat (idx + 1)) cs) = nat idx + 1"
    by auto
  show "fst (run_cell P root fs path idx t) \<noteq> Inl (HTTPException 500 Cell_execution_failed)"
  proof (cases "safe_nb_path root path")
    case (Inl e)
    then have "e \<noteq> HTTPException 500 Cell_execution_failed"
      by (auto simp: safe_nb_path_def split: sum.splits if_splits)
    then show ?thesis using Inl by (simp add: run_cell_def)
  next
    case (Inr p)
    obtain r fs1 where rd: "read_nb fs p = (r, fs1)" by fastforce
    show ?thesis
    proof (cases r)
      case (Inl e)
      then have "e \<noteq> HTTPException 500 Cell_execution_failed"
        using rd by (auto simp: read_nb_def split: option.splits stored_file.splits if_splits)
      then show ?thesis using Inr rd Inl by (simp add: run_cell_def)
    next
      case r: (Inr nbh)
      obtain nb' h' where nbh: "nbh = (nb', h')" by (cases nbh)
      show ?thesis
      proof (cases "idx < 0 \<or> int (length (nb_cells nb')) \<le> idx")
        case True
        then show ?thesis using Inr rd r nbh by (auto simp: run_cell_def)
      next
        case False
        let ?partial = "\<lparr>nb_metadata = nb_metadata nb', nb_cells = take (nat (idx + 1)) (nb_cells nb')\<rparr>"
        obtain ex h1 where ex: "execute P ?partial t h' = (ex, h1)" by fastforce
        then have "ex = ?partial" using execute_same_notebook[of P ?partial t h'] by simp
        then have "idx < int (length (nb_cells ex))" using False by auto
        then show ?thesis using Inr rd r nbh False ex
          by (auto simp: run_cell_def Let_def write_nb_def)
      qed
    qed
  qed
qed

text \<open>
  Cell 1 of the example document, and the number of cells that \<open>_execute\<close> returns for it.
\<close>

theorem C10_fallback_unreachable_witness:
  "fst (run_cell echo_provider [''srv''] sample_fs ''a'' 1 120)
     \<noteq> Inl (HTTPException 500 Cell_execution_failed)
   \<and> length (nb_cells (fst (execute echo_provider (fst (load sample_document)) 120
        (snd (load sample_document))))) = 4
   \<and> length (take (nat (1 + 1)) (doc_cells sample_document)) = 2"
proof -
  have l: "length (nb_cells (fst (load sample_document))) = 4"
    by (simp add: load_def sample_document_def)
  have r: "(0::int) \<le> 1 \<and> (1::int) < int (length (doc_cells sample_document))"
    by (simp add: sample_document_def)
  show ?thesis
    using C10_fallback_unreachable[of echo_provider "[''srv'']" sample_fs "''a''" 1 120
        "fst (load sample_document)" "snd (load sample_document)" "doc_cells sample_document"] l r
    by simp
qed

end
